theory Spec2Isabelle
  imports Main "HOL-Library.AList"
begin

section \<open>Text\<close>

text \<open>
  A Python \<^verbatim>\<open>str\<close> is a sequence of Unicode code points. A code point is a natural
  number here, a text a list of them. \<open>u\<close> reads an ASCII literal as such a text.
\<close>

type_synonym ustring = "nat list"

definition u :: "string \<Rightarrow> ustring" where
  "u s = map of_char s"

text \<open>
  The three code points of the literal that the source writes for the bullet glyph
  (U+00E2, U+20AC, U+00A2).
\<close>

definition glyph :: ustring where
  "glyph = [226, 8364, 162]"

subsection \<open>Character classes of the Python runtime\<close>

fun in_ranges :: "nat \<Rightarrow> (nat \<times> nat) list \<Rightarrow> bool" where
  "in_ranges c [] = False"
| "in_ranges c (r # rs) = (if fst r \<le> c \<and> c \<le> snd r then True else in_ranges c rs)"

text \<open>\<^verbatim>\<open>str.isspace\<close>: what \<^verbatim>\<open>str.strip()\<close> removes and what \<^verbatim>\<open>\s\<close> matches.\<close>

definition space_ranges :: "(nat \<times> nat) list" where
  "space_ranges =
    [(9, 13), (28, 32), (133, 133), (160, 160), (5760, 5760), (8192, 8202), (8232, 8233),
     (8239, 8239), (8287, 8287), (12288, 12288)]"

definition py_isspace :: "nat \<Rightarrow> bool" where
  "py_isspace c = in_ranges c space_ranges"

text \<open>\<^verbatim>\<open>str.isdecimal\<close>, the class \<^verbatim>\<open>\d\<close> of a \<^verbatim>\<open>str\<close> pattern (Unicode 14.0, CPython 3.11).\<close>

definition decimal_ranges :: "(nat \<times> nat) list" where
  "decimal_ranges =
  [
   (48, 57), (1632, 1641), (1776, 1785), (1984, 1993), (2406, 2415), (2534, 2543),
   (2662, 2671), (2790, 2799), (2918, 2927), (3046, 3055), (3174, 3183), (3302, 3311),
   (3430, 3439), (3558, 3567), (3664, 3673), (3792, 3801), (3872, 3881), (4160, 4169),
   (4240, 4249), (6112, 6121), (6160, 6169), (6470, 6479), (6608, 6617), (6784, 6793),
   (6800, 6809), (6992, 7001), (7088, 7097), (7232, 7241), (7248, 7257), (42528, 42537),
   (43216, 43225), (43264, 43273), (43472, 43481), (43504, 43513), (43600, 43609),
   (44016, 44025), (65296, 65305), (66720, 66729), (68912, 68921), (69734, 69743),
   (69872, 69881), (69942, 69951), (70096, 70105), (70384, 70393), (70736, 70745),
   (70864, 70873), (71248, 71257), (71360, 71369), (71472, 71481), (71904, 71913),
   (72016, 72025), (72784, 72793), (73040, 73049), (73120, 73129), (92768, 92777),
   (92864, 92873), (93008, 93017), (120782, 120831), (123200, 123209), (123632, 123641),
   (125264, 125273), (130032, 130041)]"

definition py_isdecimal :: "nat \<Rightarrow> bool" where
  "py_isdecimal c = in_ranges c decimal_ranges"

text \<open>\<^verbatim>\<open>str.isalnum\<close> (Unicode 14.0, CPython 3.11); \<^verbatim>\<open>\w\<close> adds the underscore.\<close>

definition alnum_ranges :: "(nat \<times> nat) list" where
  "alnum_ranges =
  [
   (48, 57), (65, 90), (97, 122), (170, 170), (178, 179), (181, 181), (185, 186), (188, 190),
   (192, 214), (216, 246), (248, 705), (710, 721), (736, 740), (748, 748), (750, 750),
   (880, 884), (886, 887), (890, 893), (895, 895), (902, 902), (904, 906), (908, 908),
   (910, 929), (931, 1013), (1015, 1153), (1162, 1327), (1329, 1366), (1369, 1369),
   (1376, 1416), (1488, 1514), (1519, 1522), (1568, 1610), (1632, 1641), (1646, 1647),
   (1649, 1747), (1749, 1749), (1765, 1766), (1774, 1788), (1791, 1791), (1808, 1808),
   (1810, 1839), (1869, 1957), (1969, 1969), (1984, 2026), (2036, 2037), (2042, 2042),
   (2048, 2069), (2074, 2074), (2084, 2084), (2088, 2088), (2112, 2136), (2144, 2154),
   (2160, 2183), (2185, 2190), (2208, 2249), (2308, 2361), (2365, 2365), (2384, 2384),
   (2392, 2401), (2406, 2415), (2417, 2432), (2437, 2444), (2447, 2448), (2451, 2472),
   (2474, 2480), (2482, 2482), (2486, 2489), (2493, 2493), (2510, 2510), (2524, 2525),
   (2527, 2529), (2534, 2545), (2548, 2553), (2556, 2556), (2565, 2570), (2575, 2576),
   (2579, 2600), (2602, 2608), (2610, 2611), (2613, 2614), (2616, 2617), (2649, 2652),
   (2654, 2654), (2662, 2671), (2674, 2676), (2693, 2701), (2703, 2705), (2707, 2728),
   (2730, 2736), (2738, 2739), (2741, 2745), (2749, 2749), (2768, 2768), (2784, 2785),
   (2790, 2799), (2809, 2809), (2821, 2828), (2831, 2832), (2835, 2856), (2858, 2864),
   (2866, 2867), (2869, 2873), (2877, 2877), (2908, 2909), (2911, 2913), (2918, 2927),
   (2929, 2935), (2947, 2947), (2949, 2954), (2958, 2960), (2962, 2965), (2969, 2970),
   (2972, 2972), (2974, 2975), (2979, 2980), (2984, 2986), (2990, 3001), (3024, 3024),
   (3046, 3058), (3077, 3084), (3086, 3088), (3090, 3112), (3114, 3129), (3133, 3133),
   (3160, 3162), (3165, 3165), (3168, 3169), (3174, 3183), (3192, 3198), (3200, 3200),
   (3205, 3212), (3214, 3216), (3218, 3240), (3242, 3251), (3253, 3257), (3261, 3261),
   (3293, 3294), (3296, 3297), (3302, 3311), (3313, 3314), (3332, 3340), (3342, 3344),
   (3346, 3386), (3389, 3389), (3406, 3406), (3412, 3414), (3416, 3425), (3430, 3448),
   (3450, 3455), (3461, 3478), (3482, 3505), (3507, 3515), (3517, 3517), (3520, 3526),
   (3558, 3567), (3585, 3632), (3634, 3635), (3648, 3654), (3664, 3673), (3713, 3714),
   (3716, 3716), (3718, 3722), (3724, 3747), (3749, 3749), (3751, 3760), (3762, 3763),
   (3773, 3773), (3776, 3780), (3782, 3782), (3792, 3801), (3804, 3807), (3840, 3840),
   (3872, 3891), (3904, 3911), (3913, 3948), (3976, 3980), (4096, 4138), (4159, 4169),
   (4176, 4181), (4186, 4189), (4193, 4193), (4197, 4198), (4206, 4208), (4213, 4225),
   (4238, 4238), (4240, 4249), (4256, 4293), (4295, 4295), (4301, 4301), (4304, 4346),
   (4348, 4680), (4682, 4685), (4688, 4694), (4696, 4696), (4698, 4701), (4704, 4744),
   (4746, 4749), (4752, 4784), (4786, 4789), (4792, 4798), (4800, 4800), (4802, 4805),
   (4808, 4822), (4824, 4880), (4882, 4885), (4888, 4954), (4969, 4988), (4992, 5007),
   (5024, 5109), (5112, 5117), (5121, 5740), (5743, 5759), (5761, 5786), (5792, 5866),
   (5870, 5880), (5888, 5905), (5919, 5937), (5952, 5969), (5984, 5996), (5998, 6000),
   (6016, 6067), (6103, 6103), (6108, 6108), (6112, 6121), (6128, 6137), (6160, 6169),
   (6176, 6264), (6272, 6276), (6279, 6312), (6314, 6314), (6320, 6389), (6400, 6430),
   (6470, 6509), (6512, 6516), (6528, 6571), (6576, 6601), (6608, 6618), (6656, 6678),
   (6688, 6740), (6784, 6793), (6800, 6809), (6823, 6823), (6917, 6963), (6981, 6988),
   (6992, 7001), (7043, 7072), (7086, 7141), (7168, 7203), (7232, 7241), (7245, 7293),
   (7296, 7304), (7312, 7354), (7357, 7359), (7401, 7404), (7406, 7411), (7413, 7414),
   (7418, 7418), (7424, 7615), (7680, 7957), (7960, 7965), (7968, 8005), (8008, 8013),
   (8016, 8023), (8025, 8025), (8027, 8027), (8029, 8029), (8031, 8061), (8064, 8116),
   (8118, 8124), (8126, 8126), (8130, 8132), (8134, 8140), (8144, 8147), (8150, 8155),
   (8160, 8172), (8178, 8180), (8182, 8188), (8304, 8305), (8308, 8313), (8319, 8329),
   (8336, 8348), (8450, 8450), (8455, 8455), (8458, 8467), (8469, 8469), (8473, 8477),
   (8484, 8484), (8486, 8486), (8488, 8488), (8490, 8493), (8495, 8505), (8508, 8511),
   (8517, 8521), (8526, 8526), (8528, 8585), (9312, 9371), (9450, 9471), (10102, 10131),
   (11264, 11492), (11499, 11502), (11506, 11507), (11517, 11517), (11520, 11557),
   (11559, 11559), (11565, 11565), (11568, 11623), (11631, 11631), (11648, 11670),
   (11680, 11686), (11688, 11694), (11696, 11702), (11704, 11710), (11712, 11718),
   (11720, 11726), (11728, 11734), (11736, 11742), (11823, 11823), (12293, 12295),
   (12321, 12329), (12337, 12341), (12344, 12348), (12353, 12438), (12445, 12447),
   (12449, 12538), (12540, 12543), (12549, 12591), (12593, 12686), (12690, 12693),
   (12704, 12735), (12784, 12799), (12832, 12841), (12872, 12879), (12881, 12895),
   (12928, 12937), (12977, 12991), (13312, 19903), (19968, 42124), (42192, 42237),
   (42240, 42508), (42512, 42539), (42560, 42606), (42623, 42653), (42656, 42735),
   (42775, 42783), (42786, 42888), (42891, 42954), (42960, 42961), (42963, 42963),
   (42965, 42969), (42994, 43009), (43011, 43013), (43015, 43018), (43020, 43042),
   (43056, 43061), (43072, 43123), (43138, 43187), (43216, 43225), (43250, 43255),
   (43259, 43259), (43261, 43262), (43264, 43301), (43312, 43334), (43360, 43388),
   (43396, 43442), (43471, 43481), (43488, 43492), (43494, 43518), (43520, 43560),
   (43584, 43586), (43588, 43595), (43600, 43609), (43616, 43638), (43642, 43642),
   (43646, 43695), (43697, 43697), (43701, 43702), (43705, 43709), (43712, 43712),
   (43714, 43714), (43739, 43741), (43744, 43754), (43762, 43764), (43777, 43782),
   (43785, 43790), (43793, 43798), (43808, 43814), (43816, 43822), (43824, 43866),
   (43868, 43881), (43888, 44002), (44016, 44025), (44032, 55203), (55216, 55238),
   (55243, 55291), (63744, 64109), (64112, 64217), (64256, 64262), (64275, 64279),
   (64285, 64285), (64287, 64296), (64298, 64310), (64312, 64316), (64318, 64318),
   (64320, 64321), (64323, 64324), (64326, 64433), (64467, 64829), (64848, 64911),
   (64914, 64967), (65008, 65019), (65136, 65140), (65142, 65276), (65296, 65305),
   (65313, 65338), (65345, 65370), (65382, 65470), (65474, 65479), (65482, 65487),
   (65490, 65495), (65498, 65500), (65536, 65547), (65549, 65574), (65576, 65594),
   (65596, 65597), (65599, 65613), (65616, 65629), (65664, 65786), (65799, 65843),
   (65856, 65912), (65930, 65931), (66176, 66204), (66208, 66256), (66273, 66299),
   (66304, 66339), (66349, 66378), (66384, 66421), (66432, 66461), (66464, 66499),
   (66504, 66511), (66513, 66517), (66560, 66717), (66720, 66729), (66736, 66771),
   (66776, 66811), (66816, 66855), (66864, 66915), (66928, 66938), (66940, 66954),
   (66956, 66962), (66964, 66965), (66967, 66977), (66979, 66993), (66995, 67001),
   (67003, 67004), (67072, 67382), (67392, 67413), (67424, 67431), (67456, 67461),
   (67463, 67504), (67506, 67514), (67584, 67589), (67592, 67592), (67594, 67637),
   (67639, 67640), (67644, 67644), (67647, 67669), (67672, 67702), (67705, 67742),
   (67751, 67759), (67808, 67826), (67828, 67829), (67835, 67867), (67872, 67897),
   (67968, 68023), (68028, 68047), (68050, 68096), (68112, 68115), (68117, 68119),
   (68121, 68149), (68160, 68168), (68192, 68222), (68224, 68255), (68288, 68295),
   (68297, 68324), (68331, 68335), (68352, 68405), (68416, 68437), (68440, 68466),
   (68472, 68497), (68521, 68527), (68608, 68680), (68736, 68786), (68800, 68850),
   (68858, 68899), (68912, 68921), (69216, 69246), (69248, 69289), (69296, 69297),
   (69376, 69415), (69424, 69445), (69457, 69460), (69488, 69505), (69552, 69579),
   (69600, 69622), (69635, 69687), (69714, 69743), (69745, 69746), (69749, 69749),
   (69763, 69807), (69840, 69864), (69872, 69881), (69891, 69926), (69942, 69951),
   (69956, 69956), (69959, 69959), (69968, 70002), (70006, 70006), (70019, 70066),
   (70081, 70084), (70096, 70106), (70108, 70108), (70113, 70132), (70144, 70161),
   (70163, 70187), (70272, 70278), (70280, 70280), (70282, 70285), (70287, 70301),
   (70303, 70312), (70320, 70366), (70384, 70393), (70405, 70412), (70415, 70416),
   (70419, 70440), (70442, 70448), (70450, 70451), (70453, 70457), (70461, 70461),
   (70480, 70480), (70493, 70497), (70656, 70708), (70727, 70730), (70736, 70745),
   (70751, 70753), (70784, 70831), (70852, 70853), (70855, 70855), (70864, 70873),
   (71040, 71086), (71128, 71131), (71168, 71215), (71236, 71236), (71248, 71257),
   (71296, 71338), (71352, 71352), (71360, 71369), (71424, 71450), (71472, 71483),
   (71488, 71494), (71680, 71723), (71840, 71922), (71935, 71942), (71945, 71945),
   (71948, 71955), (71957, 71958), (71960, 71983), (71999, 71999), (72001, 72001),
   (72016, 72025), (72096, 72103), (72106, 72144), (72161, 72161), (72163, 72163),
   (72192, 72192), (72203, 72242), (72250, 72250), (72272, 72272), (72284, 72329),
   (72349, 72349), (72368, 72440), (72704, 72712), (72714, 72750), (72768, 72768),
   (72784, 72812), (72818, 72847), (72960, 72966), (72968, 72969), (72971, 73008),
   (73030, 73030), (73040, 73049), (73056, 73061), (73063, 73064), (73066, 73097),
   (73112, 73112), (73120, 73129), (73440, 73458), (73648, 73648), (73664, 73684),
   (73728, 74649), (74752, 74862), (74880, 75075), (77712, 77808), (77824, 78894),
   (82944, 83526), (92160, 92728), (92736, 92766), (92768, 92777), (92784, 92862),
   (92864, 92873), (92880, 92909), (92928, 92975), (92992, 92995), (93008, 93017),
   (93019, 93025), (93027, 93047), (93053, 93071), (93760, 93846), (93952, 94026),
   (94032, 94032), (94099, 94111), (94176, 94177), (94179, 94179), (94208, 100343),
   (100352, 101589), (101632, 101640), (110576, 110579), (110581, 110587), (110589, 110590),
   (110592, 110882), (110928, 110930), (110948, 110951), (110960, 111355), (113664, 113770),
   (113776, 113788), (113792, 113800), (113808, 113817), (119520, 119539), (119648, 119672),
   (119808, 119892), (119894, 119964), (119966, 119967), (119970, 119970), (119973, 119974),
   (119977, 119980), (119982, 119993), (119995, 119995), (119997, 120003), (120005, 120069),
   (120071, 120074), (120077, 120084), (120086, 120092), (120094, 120121), (120123, 120126),
   (120128, 120132), (120134, 120134), (120138, 120144), (120146, 120485), (120488, 120512),
   (120514, 120538), (120540, 120570), (120572, 120596), (120598, 120628), (120630, 120654),
   (120656, 120686), (120688, 120712), (120714, 120744), (120746, 120770), (120772, 120779),
   (120782, 120831), (122624, 122654), (123136, 123180), (123191, 123197), (123200, 123209),
   (123214, 123214), (123536, 123565), (123584, 123627), (123632, 123641), (124896, 124902),
   (124904, 124907), (124909, 124910), (124912, 124926), (124928, 125124), (125127, 125135),
   (125184, 125251), (125259, 125259), (125264, 125273), (126065, 126123), (126125, 126127),
   (126129, 126132), (126209, 126253), (126255, 126269), (126464, 126467), (126469, 126495),
   (126497, 126498), (126500, 126500), (126503, 126503), (126505, 126514), (126516, 126519),
   (126521, 126521), (126523, 126523), (126530, 126530), (126535, 126535), (126537, 126537),
   (126539, 126539), (126541, 126543), (126545, 126546), (126548, 126548), (126551, 126551),
   (126553, 126553), (126555, 126555), (126557, 126557), (126559, 126559), (126561, 126562),
   (126564, 126564), (126567, 126570), (126572, 126578), (126580, 126583), (126585, 126588),
   (126590, 126590), (126592, 126601), (126603, 126619), (126625, 126627), (126629, 126633),
   (126635, 126651), (127232, 127244), (130032, 130041), (131072, 173791), (173824, 177976),
   (177984, 178205), (178208, 183969), (183984, 191456), (194560, 195101), (196608, 201546)]"

definition py_isalnum :: "nat \<Rightarrow> bool" where
  "py_isalnum c = in_ranges c alnum_ranges"

definition py_isword :: "nat \<Rightarrow> bool" where
  "py_isword c = (if c = 95 then True else py_isalnum c)"

text \<open>
  The code points that a cased ASCII letter of a pattern matches under
  \<^verbatim>\<open>re.IGNORECASE\<close>: both cases of the letter, and for i, s and k the code points that
  the runtime's case tables fold to them (U+0130, U+0131, U+017F, U+212A). Any other
  pattern character matches itself only. The patterns of the source hold ASCII only.
\<close>

definition ci_class :: "nat \<Rightarrow> nat list" where
  "ci_class p =
    (if 97 \<le> p \<and> p \<le> 122 then
       [p, p - 32] @ (if p = 105 then [304, 305] else if p = 115 then [383]
                      else if p = 107 then [8490] else [])
     else if 65 \<le> p \<and> p \<le> 90 then
       [p, p + 32] @ (if p = 73 then [304, 305] else if p = 83 then [383]
                      else if p = 75 then [8490] else [])
     else [p])"

definition ci_eq :: "nat \<Rightarrow> nat \<Rightarrow> bool" where
  "ci_eq p c = (c \<in> set (ci_class p))"

subsection \<open>String methods\<close>

definition startswith :: "ustring \<Rightarrow> ustring \<Rightarrow> bool" where
  "startswith s p = (take (length p) s = p)"

definition endswith :: "ustring \<Rightarrow> ustring \<Rightarrow> bool" where
  "endswith s p = (drop (length s - length p) s = p)"

text \<open>\<^verbatim>\<open>sub in s\<close>.\<close>

fun contains :: "ustring \<Rightarrow> ustring \<Rightarrow> bool" where
  "contains sub [] = (sub = [])"
| "contains sub (x # xs) = (if startswith (x # xs) sub then True else contains sub xs)"

text \<open>\<^verbatim>\<open>s.index(sub)\<close>, where \<open>sub\<close> occurs in \<open>s\<close>; \<open>None\<close> is Python's ValueError.\<close>

fun index_of :: "ustring \<Rightarrow> ustring \<Rightarrow> nat option" where
  "index_of sub [] = (if sub = [] then Some 0 else None)"
| "index_of sub (x # xs) =
     (if startswith (x # xs) sub then Some 0 else map_option Suc (index_of sub xs))"

text \<open>\<^verbatim>\<open>s.split(sep)\<close> for a separator of one character.\<close>

fun split_on :: "nat \<Rightarrow> ustring \<Rightarrow> ustring list" where
  "split_on c [] = [[]]"
| "split_on c (x # xs) =
     (if x = c then [] # split_on c xs
      else (case split_on c xs of [] \<Rightarrow> [[x]] | l # ls \<Rightarrow> (x # l) # ls))"

text \<open>\<^verbatim>\<open>sep.join(ls)\<close>.\<close>

fun join :: "ustring \<Rightarrow> ustring list \<Rightarrow> ustring" where
  "join sep [] = []"
| "join sep [l] = l"
| "join sep (l # l' # ls) = l @ sep @ join sep (l' # ls)"

definition lstrip :: "ustring \<Rightarrow> ustring" where
  "lstrip s = dropWhile py_isspace s"

definition rstrip :: "ustring \<Rightarrow> ustring" where
  "rstrip s = rev (dropWhile py_isspace (rev s))"

definition strip :: "ustring \<Rightarrow> ustring" where
  "strip s = rstrip (lstrip s)"

text \<open>\<^verbatim>\<open>s.lstrip(chars)\<close>.\<close>

definition lstrip_chars :: "ustring \<Rightarrow> ustring \<Rightarrow> ustring" where
  "lstrip_chars cs s = dropWhile (\<lambda>c. c \<in> set cs) s"

text \<open>
  \<^verbatim>\<open>s.replace(old, new)\<close>: the occurrences of \<open>old\<close> from the left, not overlapping.
  Every call of the source passes a literal \<open>old\<close> of two characters.
\<close>

fun replace :: "ustring \<Rightarrow> ustring \<Rightarrow> ustring \<Rightarrow> ustring" where
  "replace old new [] = []"
| "replace old new (x # xs) =
     (if startswith (x # xs) old then new @ replace old new (drop (length old - 1) xs)
      else x # replace old new xs)"

text \<open>
  \<^verbatim>\<open>s.lower()\<close>, exact on ASCII and on the two code points beyond ASCII whose
  lowercase holds an ASCII letter (U+0130 and U+212A). Any other code point beyond ASCII
  is left as it is: its lowercase is beyond ASCII too, and the one use of \<open>lower\<close>
  compares the result with the ASCII word \<^verbatim>\<open>title\<close>.
\<close>

definition lower_char :: "nat \<Rightarrow> ustring" where
  "lower_char c =
     (if 65 \<le> c \<and> c \<le> 90 then [c + 32]
      else if c = 304 then [105, 775]
      else if c = 8490 then [107]
      else [c])"

definition py_lower :: "ustring \<Rightarrow> ustring" where
  "py_lower s = concat (map lower_char s)"

section \<open>Regular expressions\<close>

text \<open>
  The fragment of Python's \<^verbatim>\<open>re\<close> that the patterns of the source use, matched as
  \<^verbatim>\<open>re\<close> does: by backtracking, left to right, a greedy repetition trying the longest
  run first and a lazy one the shortest, the first alternative first. A pattern is the
  list of its items; the parentheses of group \<open>n\<close> are the items \<open>Open n\<close> and \<open>Close n\<close>.
\<close>

datatype quant = Greedy | Lazy

datatype item =
    Bol
  | Eol
  | Lit ustring
  | LitI ustring
  | AltI "ustring list"
  | Rep quant nat "nat option" "nat \<Rightarrow> bool"
  | Open nat
  | Close nat

type_synonym groups = "(nat \<times> ustring) list"

fun lit_prefix :: "(nat \<Rightarrow> nat \<Rightarrow> bool) \<Rightarrow> ustring \<Rightarrow> ustring \<Rightarrow> bool" where
  "lit_prefix eq [] s = True"
| "lit_prefix eq (p # ps) [] = False"
| "lit_prefix eq (p # ps) (c # cs) = (if eq p c then lit_prefix eq ps cs else False)"

definition dec_max :: "nat option \<Rightarrow> nat option" where
  "dec_max mx = map_option (\<lambda>n. n - 1) mx"

text \<open>
  \<open>ms items i s os gs\<close> matches \<open>items\<close> at position \<open>i\<close> of the subject, \<open>s\<close> being the
  rest of the subject from there; \<open>os\<close> holds the rest of the subject at each group
  opened, \<open>gs\<close> the text of each group closed. \<^verbatim>\<open>$\<close> matches at the end and before a
  final newline, \<^verbatim>\<open>^\<close> at position 0 (no pattern of the source is MULTILINE).
\<close>

fun ms :: "item list \<Rightarrow> nat \<Rightarrow> ustring \<Rightarrow> groups \<Rightarrow> groups \<Rightarrow> groups option"
  and alts :: "ustring list \<Rightarrow> item list \<Rightarrow> nat \<Rightarrow> ustring \<Rightarrow> groups \<Rightarrow> groups \<Rightarrow> groups option"
where
  "ms [] i s os gs = Some gs"
| "ms (Bol # r) i s os gs = (if i = 0 then ms r i s os gs else None)"
| "ms (Eol # r) i s os gs = (if s = [] \<or> s = [10] then ms r i s os gs else None)"
| "ms (Lit w # r) i s os gs =
     (if lit_prefix (=) w s then ms r (i + length w) (drop (length w) s) os gs else None)"
| "ms (LitI w # r) i s os gs =
     (if lit_prefix ci_eq w s then ms r (i + length w) (drop (length w) s) os gs else None)"
| "ms (AltI ws # r) i s os gs = alts ws r i s os gs"
| "ms (Rep Greedy mn mx p # r) i s os gs =
     (case (case s of
              [] \<Rightarrow> None
            | c # s' \<Rightarrow>
                if p c \<and> mx \<noteq> Some 0
                then ms (Rep Greedy (mn - 1) (dec_max mx) p # r) (i + 1) s' os gs
                else None) of
        Some m \<Rightarrow> Some m
      | None \<Rightarrow> if mn = 0 then ms r i s os gs else None)"
| "ms (Rep Lazy mn mx p # r) i s os gs =
     (case (if mn = 0 then ms r i s os gs else None) of
        Some m \<Rightarrow> Some m
      | None \<Rightarrow>
          (case s of
             [] \<Rightarrow> None
           | c # s' \<Rightarrow>
               if p c \<and> mx \<noteq> Some 0
               then ms (Rep Lazy (mn - 1) (dec_max mx) p # r) (i + 1) s' os gs
               else None))"
| "ms (Open n # r) i s os gs = ms r i s (AList.update n s os) gs"
| "ms (Close n # r) i s os gs =
     (case map_of os n of
        None \<Rightarrow> None
      | Some so \<Rightarrow> ms r i s os (AList.update n (take (length so - length s) so) gs))"
| "alts [] r i s os gs = None"
| "alts (w # ws) r i s os gs =
     (case (if lit_prefix ci_eq w s then ms r (i + length w) (drop (length w) s) os gs
            else None) of
        Some m \<Rightarrow> Some m
      | None \<Rightarrow> alts ws r i s os gs)"

text \<open>\<^verbatim>\<open>pattern.match(s)\<close> and \<^verbatim>\<open>re.match(pattern, s)\<close>: at position 0 only.\<close>

definition re_match :: "item list \<Rightarrow> ustring \<Rightarrow> groups option" where
  "re_match pat s = ms pat 0 s [] []"

text \<open>\<^verbatim>\<open>re.search(pattern, s)\<close>: the first position, from the left, with a match.\<close>

fun search_from :: "item list \<Rightarrow> nat \<Rightarrow> ustring \<Rightarrow> groups option" where
  "search_from pat i [] = ms pat i [] [] []"
| "search_from pat i (c # s) =
     (case ms pat i (c # s) [] [] of
        Some m \<Rightarrow> Some m
      | None \<Rightarrow> search_from pat (i + 1) s)"

definition re_search :: "item list \<Rightarrow> ustring \<Rightarrow> groups option" where
  "re_search pat s = search_from pat 0 s"

text \<open>\<^verbatim>\<open>m.group(n)\<close> of a group that took part in the match.\<close>

definition group :: "groups \<Rightarrow> nat \<Rightarrow> ustring" where
  "group m n = (case map_of m n of Some g \<Rightarrow> g | None \<Rightarrow> [])"

section \<open>The record parser\<close>

subsection \<open>Patterns\<close>

definition digit :: "nat \<Rightarrow> bool" where
  "digit = py_isdecimal"

definition space :: "nat \<Rightarrow> bool" where
  "space = py_isspace"

text \<open>The dot: any character but a newline.\<close>

definition dot :: "nat \<Rightarrow> bool" where
  "dot c = (c \<noteq> 10)"

definition chr :: "nat \<Rightarrow> nat \<Rightarrow> bool" where
  "chr a c = (c = a)"

definition colon :: "nat \<Rightarrow> bool" where
  "colon = chr 58"

text \<open>
  \<^verbatim>\<open>^\d+\.\s*\*\*Title\*\*:?\s*(.*)\<close> (IGNORECASE),
  \<^verbatim>\<open>^\d+\.\s*\*\*(.*?)\*\*\<close>,
  \<^verbatim>\<open>^\d+\.\s*__(.*?)__\<close>,
  \<^verbatim>\<open>^\d+\.\s*\*(.*?)\*\<close>,
  \<^verbatim>\<open>^\d+\.\s*(.*?)$\<close>,
  \<^verbatim>\<open>^Title:?[ \t]*(.+)\<close> (IGNORECASE).
\<close>

definition title_patterns :: "item list list" where
  "title_patterns =
    [[Bol, Rep Greedy 1 None digit, LitI (u ''.''), Rep Greedy 0 None space,
      LitI (u ''**Title**''), Rep Greedy 0 (Some 1) colon, Rep Greedy 0 None space,
      Open 1, Rep Greedy 0 None dot, Close 1],
     [Bol, Rep Greedy 1 None digit, Lit (u ''.''), Rep Greedy 0 None space,
      Lit (u ''**''), Open 1, Rep Lazy 0 None dot, Close 1, Lit (u ''**'')],
     [Bol, Rep Greedy 1 None digit, Lit (u ''.''), Rep Greedy 0 None space,
      Lit (u ''__''), Open 1, Rep Lazy 0 None dot, Close 1, Lit (u ''__'')],
     [Bol, Rep Greedy 1 None digit, Lit (u ''.''), Rep Greedy 0 None space,
      Lit (u ''*''), Open 1, Rep Lazy 0 None dot, Close 1, Lit (u ''*'')],
     [Bol, Rep Greedy 1 None digit, Lit (u ''.''), Rep Greedy 0 None space,
      Open 1, Rep Lazy 0 None dot, Close 1, Eol],
     [Bol, LitI (u ''Title''), Rep Greedy 0 (Some 1) colon,
      Rep Greedy 0 None (\<lambda>c. c = 32 \<or> c = 9),
      Open 1, Rep Greedy 1 None dot, Close 1]]"

text \<open>\<^verbatim>\<open>\[(.*?)\]\([^\)]+\)\<close>\<close>

definition link_pattern :: "item list" where
  "link_pattern =
    [Lit (u ''[''), Open 1, Rep Lazy 0 None dot, Close 1, Lit (u ''](''),
     Rep Greedy 1 None (\<lambda>c. c \<noteq> 41), Lit (u '')'')]"

text \<open>\<^verbatim>\<open>Authors?:?\s*(.*)\<close> (IGNORECASE)\<close>

definition authors_pattern :: "item list" where
  "authors_pattern =
    [LitI (u ''Author''), Rep Greedy 0 (Some 1) (ci_eq 115), Rep Greedy 0 (Some 1) colon,
     Rep Greedy 0 None space, Open 1, Rep Greedy 0 None dot, Close 1]"

text \<open>\<^verbatim>\<open>Published:?\s*([A-Za-z]+ \d{1,2}, \d{4})\<close>\<close>

definition published_pattern :: "item list" where
  "published_pattern =
    [Lit (u ''Published''), Rep Greedy 0 (Some 1) colon, Rep Greedy 0 None space,
     Open 1, Rep Greedy 1 None (\<lambda>c. (65 \<le> c \<and> c \<le> 90) \<or> (97 \<le> c \<and> c \<le> 122)),
     Lit (u '' ''), Rep Greedy 1 (Some 2) digit, Lit (u '', ''),
     Rep Greedy 4 (Some 4) digit, Close 1]"

text \<open>\<^verbatim>\<open>(Summary|Abstract):?\s*(.*)\<close> (IGNORECASE)\<close>

definition summary_pattern :: "item list" where
  "summary_pattern =
    [Open 1, AltI [u ''Summary'', u ''Abstract''], Close 1, Rep Greedy 0 (Some 1) colon,
     Rep Greedy 0 None space, Open 2, Rep Greedy 0 None dot, Close 2]"

text \<open>\<^verbatim>\<open>(https?://arxiv\.org/[\w\-/\.]+)\<close>\<close>

definition url_pattern :: "item list" where
  "url_pattern =
    [Open 1, Lit (u ''http''), Rep Greedy 0 (Some 1) (chr 115), Lit (u ''://arxiv.org/''),
     Rep Greedy 1 None (\<lambda>c. if c = 45 \<or> c = 47 \<or> c = 46 then True else py_isword c),
     Close 1]"

text \<open>\<^verbatim>\<open>^\d+\. \<close>\<close>

definition numbered_pattern :: "item list" where
  "numbered_pattern = [Bol, Rep Greedy 1 None digit, Lit (u ''. '')]"

subsection \<open>Records\<close>

text \<open>
  A paper is a Python dict whose keys are among six literals; the association list keeps
  the keys in the order of insertion, as the dict does. \<open>[]\<close> is the empty dict.
\<close>

datatype key = Title | Categories | Url | Summary | Authors | Published

type_synonym paper = "(key \<times> ustring) list"

text \<open>\<^verbatim>\<open>paper.get(k, default)\<close>\<close>

definition get :: "paper \<Rightarrow> key \<Rightarrow> ustring \<Rightarrow> ustring" where
  "get p k d = (case map_of p k of Some v \<Rightarrow> v | None \<Rightarrow> d)"

subsection \<open>parse\_paper\_data\<close>

definition extract_markdown_link_text :: "ustring \<Rightarrow> ustring" where
  "extract_markdown_link_text s =
     (case re_match link_pattern s of
        Some m \<Rightarrow> strip (group m 1)
      | None \<Rightarrow> strip s)"

text \<open>The loop over \<open>title_patterns\<close>: the match of the first pattern that matches.\<close>

fun first_match :: "item list list \<Rightarrow> ustring \<Rightarrow> groups option" where
  "first_match [] line = None"
| "first_match (pat # pats) line =
     (case re_match pat line of
        Some m \<Rightarrow> Some m
      | None \<Rightarrow> first_match pats line)"

text \<open>
  The state of the loop over the lines is the pair of \<open>papers\<close> and \<open>current_paper\<close>.
  \<open>current_paper\<close> is \<open>None\<close> for Python's \<^verbatim>\<open>None\<close> and \<open>Some d\<close> for a dict \<open>d\<close>; the
  source starts it as the empty dict.
\<close>

type_synonym pstate = "paper list \<times> paper option"

definition init_state :: pstate where
  "init_state = ([], Some [])"

text \<open>\<^verbatim>\<open>if current_paper: papers.append(current_paper)\<close>\<close>

fun save_current :: "pstate \<Rightarrow> paper list" where
  "save_current (papers, None) = papers"
| "save_current (papers, Some d) = (if d \<noteq> [] then papers @ [d] else papers)"

text \<open>\<^verbatim>\<open>.strip().lstrip(':').lstrip('*').strip()\<close>\<close>

definition field_value :: "ustring \<Rightarrow> ustring" where
  "field_value g = strip (lstrip_chars (u ''*'') (lstrip_chars (u '':'') (strip g)))"

text \<open>\<^verbatim>\<open>current_paper[k] = v\<close>, reached where \<open>current_paper\<close> is not \<^verbatim>\<open>None\<close>.\<close>

fun set_field :: "key \<Rightarrow> ustring \<Rightarrow> pstate \<Rightarrow> pstate" where
  "set_field k v (papers, current_paper) =
     (papers, map_option (AList.update k v) current_paper)"

definition open_paper :: "groups \<Rightarrow> pstate \<Rightarrow> pstate" where
  "open_paper m st =
     (let title_val = (if group m 1 \<noteq> [] then strip (group m 1) else []);
          title_val = extract_markdown_link_text title_val
      in (save_current st,
          Some [(Title, if title_val \<noteq> [] then title_val else u ''Unknown Title''),
                (Categories, []), (Url, []), (Summary, []), (Authors, []),
                (Published, [])]))"

text \<open>
  \<^verbatim>\<open>re.search(pattern, line)\<close> under the guard \<^verbatim>\<open>and current_paper is not None\<close>.
\<close>

definition guarded_search :: "item list \<Rightarrow> ustring \<Rightarrow> paper option \<Rightarrow> groups option" where
  "guarded_search pat line current_paper =
     (case re_search pat line of
        None \<Rightarrow> None
      | Some m \<Rightarrow> if current_paper \<noteq> None then Some m else None)"

text \<open>One pass of the body of the loop, on one element of \<^verbatim>\<open>lines\<close>.\<close>

definition step :: "pstate \<Rightarrow> ustring \<Rightarrow> pstate" where
  "step st raw =
     (let line = strip raw in
      if line = [] then st
      else case first_match title_patterns line of
        Some m \<Rightarrow> open_paper m st
      | None \<Rightarrow>
         (case guarded_search authors_pattern line (snd st) of
            Some m \<Rightarrow> set_field Authors (field_value (group m 1)) st
          | None \<Rightarrow>
         (case guarded_search published_pattern line (snd st) of
            Some m \<Rightarrow> set_field Published (field_value (group m 1)) st
          | None \<Rightarrow>
         (case guarded_search summary_pattern line (snd st) of
            Some m \<Rightarrow> set_field Summary (field_value (group m 2)) st
          | None \<Rightarrow>
         (case guarded_search url_pattern line (snd st) of
            Some m \<Rightarrow> set_field Url (group m 1) st
          | None \<Rightarrow> st)))))"

definition parse_paper_data :: "ustring \<Rightarrow> paper list" where
  "parse_paper_data text_response =
     save_current (foldl step init_state (split_on 10 text_response))"

text \<open>The test of the loop for a title line, on an element of \<^verbatim>\<open>lines\<close>.\<close>

definition title_line :: "ustring \<Rightarrow> bool" where
  "title_line raw = (if strip raw = [] then False
                     else first_match title_patterns (strip raw) \<noteq> None)"

section \<open>The list classifier\<close>

definition numbered :: "ustring \<Rightarrow> bool" where
  "numbered line = (re_match numbered_pattern line \<noteq> None)"

definition is_paper_list_response :: "ustring \<Rightarrow> bool" where
  "is_paper_list_response response_text =
     (let papers = parse_paper_data response_text in
      if 2 \<le> length papers then True
      else let lines = split_on 10 (strip response_text);
               numbered_lines = filter numbered lines
           in 2 \<le> length numbered_lines)"

section \<open>The table\<close>

text \<open>
  A row of the data frame is the pair of its Title and its URL; \<^verbatim>\<open>None\<close> is returned
  for no papers.
\<close>

definition table_title :: "paper \<Rightarrow> ustring" where
  "table_title paper =
     (let title = get paper Title (u ''Unknown'');
          title = (if startswith title (u ''['') \<and> contains (u '']('') title
                      \<and> endswith title (u '')'')
                   then (case index_of (u '']('') title of
                           Some k \<Rightarrow> drop 1 (take k title)
                         | None \<Rightarrow> title)
                   else title)
      in if py_lower (strip title) = u ''title'' then u ''Unknown Title'' else title)"

definition create_papers_dataframe :: "paper list \<Rightarrow> (ustring \<times> ustring) list option" where
  "create_papers_dataframe papers =
     (if papers = [] then None
      else Some (map (\<lambda>paper. (table_title paper, get paper Url (u ''N/A''))) papers))"

section \<open>The text cleaner\<close>

text \<open>The body of the loop of \<open>format_structured_response\<close>: the line appended for a line.\<close>

definition format_line :: "ustring \<Rightarrow> ustring" where
  "format_line raw =
     (let line = strip raw in
      if line = [] then []
      else if startswith line (u ''**'') \<and> endswith line (u ''**'') then u ''### '' @ line
      else if startswith line (u ''*'') \<and> \<not> startswith line (u ''**'')
        then u ''- '' @ strip (drop 1 line)
      else if startswith line glyph then u ''- '' @ strip (drop 1 line)
      else line)"

definition format_structured_response :: "ustring \<Rightarrow> ustring" where
  "format_structured_response text =
     (if contains (u ''**'') text \<and> (contains (u ''*'') text \<or> contains glyph text)
      then join [10] (map format_line (split_on 10 text))
      else text)"

definition markers :: "ustring list" where
  "markers = [u ''**'', u ''*'', glyph, u ''- '', u ''Key findings:'', u ''Abstract:'',
              u ''Summary:'']"

text \<open>\<^verbatim>\<open>.replace('\\n', '\n').replace('\\"', '"')\<close>\<close>

definition unescape :: "ustring \<Rightarrow> ustring" where
  "unescape t = replace [92, 34] [34] (replace [92, 110] [10] t)"

text \<open>A text that holds one of the two escape sequences that \<open>unescape\<close> replaces.\<close>

definition has_escape :: "ustring \<Rightarrow> bool" where
  "has_escape t = (if contains [92, 110] t then True else contains [92, 34] t)"

text \<open>
  What \<open>extract_structured_content\<close> does with the text of the message once it has found
  it (lines 33 to 39): the text cleaner.
\<close>

definition clean :: "ustring \<Rightarrow> ustring" where
  "clean text_response =
     (let text_response = unescape text_response in
      if list_ex (\<lambda>marker. contains marker text_response) markers
      then format_structured_response text_response
      else text_response)"

text \<open>
  A text in canonical markdown form: on none of its lines does one of the three rewriting
  branches of \<open>format_line\<close> apply, every bullet being a hyphen bullet and every header
  a heading line already.
\<close>

definition canonical_line :: "ustring \<Rightarrow> bool" where
  "canonical_line raw =
     (let line = strip raw in
      if startswith line (u ''**'') \<and> endswith line (u ''**'') then False
      else if startswith line (u ''*'') \<and> \<not> startswith line (u ''**'') then False
      else if startswith line glyph then False
      else True)"

definition canonical_markdown :: "ustring \<Rightarrow> bool" where
  "canonical_markdown x = list_all canonical_line (split_on 10 x)"

section \<open>Notions of the proofs\<close>

text \<open>A trimmed text: empty, or with no white space at either end.\<close>

definition stripped :: "ustring \<Rightarrow> bool" where
  "stripped s = (if s = [] then True else \<not> py_isspace (hd s) \<and> \<not> py_isspace (last s))"

text \<open>The lines that the loop of the parser does not skip, trimmed.\<close>

definition nonblank :: "ustring list \<Rightarrow> ustring list" where
  "nonblank ls = filter (\<lambda>l. l \<noteq> []) (map strip ls)"

text \<open>
  The two shapes of a record that the parser returns: one opened by a title line, with a
  title and empty categories, and one that only field lines wrote into the initial dict,
  with neither.
\<close>

definition opened_by_title :: "paper \<Rightarrow> bool" where
  "opened_by_title p =
     (case map_of p Title of
        None \<Rightarrow> False
      | Some s \<Rightarrow> s \<noteq> [] \<and> map_of p Categories = Some [])"

definition fields_only :: "paper \<Rightarrow> bool" where
  "fields_only p = (map_of p Title = None \<and> map_of p Categories = None)"

text \<open>The invariant of the loop: every record closed, and the current one, has a shape.\<close>

definition shaped :: "pstate \<Rightarrow> bool" where
  "shaped st =
     (list_all (\<lambda>p. opened_by_title p \<or> fields_only p) (fst st) \<and>
      (case snd st of None \<Rightarrow> True | Some d \<Rightarrow> opened_by_title d \<or> fields_only d))"

section \<open>Evaluation on given texts\<close>

text \<open>
  The two equations of \<open>ms\<close> for a repetition rewrite a repetition into a repetition;
  they are used where a subject is given, and by name elsewhere.
\<close>

lemmas ms_rep = ms.simps(7,8)

declare ms_rep [simp del]

lemmas text_defs = u_def glyph_def startswith_def endswith_def strip_def lstrip_def rstrip_def
  lstrip_chars_def py_isspace_def space_ranges_def py_isdecimal_def decimal_ranges_def
  py_isalnum_def alnum_ranges_def py_isword_def ci_eq_def ci_class_def py_lower_def lower_char_def

lemmas re_defs = ms_rep re_match_def re_search_def group_def digit_def space_def dot_def chr_def
  colon_def dec_max_def title_patterns_def link_pattern_def authors_pattern_def
  published_pattern_def summary_pattern_def url_pattern_def numbered_pattern_def

lemmas parse_defs = parse_paper_data_def step_def open_paper_def field_value_def
  guarded_search_def init_state_def extract_markdown_link_text_def title_line_def

text \<open>
  C7. On the text of scenario A, \<open>parse_paper_data\<close> returns exactly two records: the
  first with title \<^verbatim>\<open>Deep Learning Basics\<close>, authors \<^verbatim>\<open>J. Doe\<close>, published
  \<^verbatim>\<open>March 3, 2024\<close>, summary \<^verbatim>\<open>An overview.\<close> and url
  \<^verbatim>\<open>https://arxiv.org/abs/1234.5678\<close>; the second with title
  \<^verbatim>\<open>Transformers Explained\<close>, authors \<^verbatim>\<open>A. Smith\<close> and every other field empty.
\<close>

theorem scenario_a:
  "parse_paper_data (u ''1. **Title**: Deep Learning Basics\<newline>Authors: J. Doe\<newline>Published: March 3, 2024\<newline>Summary: An overview.\<newline>https://arxiv.org/abs/1234.5678\<newline>2. **Title**: Transformers Explained\<newline>Authors: A. Smith'') =
    [[(Title, u ''Deep Learning Basics''), (Categories, []),
      (Url, u ''https://arxiv.org/abs/1234.5678''), (Summary, u ''An overview.''),
      (Authors, u ''J. Doe''), (Published, u ''March 3, 2024'')],
     [(Title, u ''Transformers Explained''), (Categories, []), (Url, []), (Summary, []),
      (Authors, u ''A. Smith''), (Published, [])]]"
  by (simp add: text_defs re_defs parse_defs)

text \<open>
  C8. On the text of scenario C, a numbered line holding a markdown link,
  \<open>parse_paper_data\<close> returns exactly one record; its title is the text of the link,
  \<^verbatim>\<open>Attention Is All You Need\<close>, and its url is empty: the address inside the title
  line is not read.
\<close>

theorem scenario_c:
  "parse_paper_data (u ''1. [Attention Is All You Need](https://arxiv.org/abs/1706.03762)'') =
    [[(Title, u ''Attention Is All You Need''), (Categories, []), (Url, []), (Summary, []),
      (Authors, []), (Published, [])]]"
  by (simp add: text_defs re_defs parse_defs)

section \<open>What holds of every record returned\<close>

lemma shape_update:
  assumes "k \<noteq> Title" and "k \<noteq> Categories" and "opened_by_title d \<or> fields_only d"
  shows "opened_by_title (AList.update k v d) \<or> fields_only (AList.update k v d)"
  using assms by (auto simp: opened_by_title_def fields_only_def update_conv' split: option.splits)

lemma shaped_save_current:
  "shaped st \<Longrightarrow> list_all (\<lambda>p. opened_by_title p \<or> fields_only p) (save_current st)"
  by (cases st; cases "snd st") (auto simp: shaped_def)

lemma opened_by_title_new:
  "opened_by_title [(Title, if tv \<noteq> [] then tv else u ''Unknown Title''), (Categories, []),
     (Url, []), (Summary, []), (Authors, []), (Published, [])]"
  by (simp add: opened_by_title_def u_def)

lemma shaped_open_paper: "shaped st \<Longrightarrow> shaped (open_paper m st)"
  using shaped_save_current [of st] opened_by_title_new
  by (simp add: shaped_def open_paper_def Let_def)

lemma shaped_set_field:
  "k \<noteq> Title \<Longrightarrow> k \<noteq> Categories \<Longrightarrow> shaped st \<Longrightarrow> shaped (set_field k v st)"
  by (cases st; cases "snd st") (auto simp: shaped_def shape_update)

lemma shaped_step: "shaped st \<Longrightarrow> shaped (step st raw)"
  by (auto simp: step_def Let_def shaped_open_paper shaped_set_field split: option.splits)

lemma shaped_foldl: "shaped st \<Longrightarrow> shaped (foldl step st ls)"
  by (induction ls arbitrary: st) (simp_all add: shaped_step)

text \<open>
  Every record returned has a non-empty title and empty categories, or has neither field:
  the second is the record that field lines make of the initial empty dict.
\<close>

lemma parsed_record_shape:
  "p \<in> set (parse_paper_data t) \<Longrightarrow> opened_by_title p \<or> fields_only p"
proof -
  have "shaped init_state" by (simp add: shaped_def init_state_def fields_only_def)
  then have "shaped (foldl step init_state (split_on 10 t))" by (rule shaped_foldl)
  then have "list_all (\<lambda>p. opened_by_title p \<or> fields_only p) (parse_paper_data t)"
    unfolding parse_paper_data_def by (rule shaped_save_current)
  then show "p \<in> set (parse_paper_data t) \<Longrightarrow> opened_by_title p \<or> fields_only p"
    by (simp add: list_all_iff)
qed

section \<open>At most one record more than title lines\<close>

lemma length_save_current_le: "length (save_current st) \<le> Suc (length (fst st))"
  by (cases st; cases "snd st") auto

lemma step_closed_title:
  "title_line raw \<Longrightarrow> length (fst (step st raw)) \<le> Suc (length (fst st))"
  using length_save_current_le [of st]
  by (auto simp: title_line_def step_def Let_def open_paper_def split: if_splits)

lemma step_closed_other: "\<not> title_line raw \<Longrightarrow> fst (step st raw) = fst st"
  by (cases st) (auto simp: title_line_def step_def Let_def split: option.splits)

lemma foldl_step_closed:
  "length (fst (foldl step st ls)) \<le> length (fst st) + length (filter title_line ls)"
proof (induction ls arbitrary: st)
  case Nil
  then show ?case by simp
next
  case (Cons raw ls)
  have "length (fst (foldl step (step st raw) ls))
          \<le> length (fst (step st raw)) + length (filter title_line ls)" by (rule Cons.IH)
  also have "\<dots> \<le> length (fst st) + length (filter title_line (raw # ls))"
    using step_closed_title [of raw st] step_closed_other [of raw st] by (cases "title_line raw") auto
  finally show ?case by simp
qed

text \<open>The records returned are at most one more than the title lines of the text.\<close>

lemma parsed_at_most:
  "length (parse_paper_data t) \<le> Suc (length (filter title_line (split_on 10 t)))"
proof -
  let ?st = "foldl step init_state (split_on 10 t)"
  have "length (save_current ?st) \<le> Suc (length (fst ?st))" by (rule length_save_current_le)
  also have "length (fst ?st) \<le> length (fst init_state) + length (filter title_line (split_on 10 t))"
    by (rule foldl_step_closed)
  finally show ?thesis by (simp add: parse_paper_data_def init_state_def)
qed

section \<open>Every title line adds a record\<close>

lemma save_current_open_paper:
  "save_current (open_paper m st) = save_current st @ [the (snd (open_paper m st))]"
  by (simp add: open_paper_def Let_def)

lemma length_save_current_set_field:
  "length (save_current st) \<le> length (save_current (set_field k v st))"
proof (cases st)
  case (Pair ps cp)
  then show ?thesis
  proof (cases cp)
    case None
    with Pair show ?thesis by simp
  next
    case (Some d)
    have "AList.update k v d \<noteq> []" by (cases d) auto
    with Pair Some show ?thesis by simp
  qed
qed

lemma step_title_line:
  "title_line raw \<Longrightarrow> length (save_current (step st raw)) = Suc (length (save_current st))"
  by (auto simp: title_line_def step_def Let_def save_current_open_paper split: if_splits)

lemma step_grows: "length (save_current st) \<le> length (save_current (step st raw))"
proof (cases "title_line raw")
  case True
  then show ?thesis by (simp add: step_title_line)
next
  case False
  then show ?thesis
    by (auto simp: title_line_def step_def Let_def length_save_current_set_field
        split: option.splits)
qed

lemma foldl_step_count:
  "length (save_current st) + length (filter title_line ls)
     \<le> length (save_current (foldl step st ls))"
proof (induction ls arbitrary: st)
  case Nil
  then show ?case by simp
next
  case (Cons raw ls)
  have "length (save_current st) + length (filter title_line (raw # ls))
          \<le> length (save_current (step st raw)) + length (filter title_line ls)"
    using step_grows [of st raw] by (auto simp: step_title_line)
  also have "\<dots> \<le> length (save_current (foldl step (step st raw) ls))" by (rule Cons.IH)
  finally show ?case by simp
qed

text \<open>The records returned are at least as many as the title lines of the text.\<close>

lemma title_lines_parsed:
  "length (filter title_line (split_on 10 t)) \<le> length (parse_paper_data t)"
  using foldl_step_count [of init_state "split_on 10 t"]
  by (simp add: parse_paper_data_def init_state_def)

section \<open>A field line before the first title line\<close>

text \<open>A line that is no title line and matches none of the four field patterns is dropped.\<close>

lemma unmatched_line_dropped:
  assumes "\<not> title_line raw"
    and "re_search authors_pattern (strip raw) = None"
    and "re_search published_pattern (strip raw) = None"
    and "re_search summary_pattern (strip raw) = None"
    and "re_search url_pattern (strip raw) = None"
  shows "step st raw = st"
  using assms by (auto simp: title_line_def step_def Let_def guarded_search_def)

text \<open>
  C1. The claim: a non-blank line that matches no title pattern, scanned while no record
  is open, is dropped and creates no record. The code at the text \<^verbatim>\<open>Authors: J. Doe\<close>:
  the line is no title line, no record is open (\<open>current_paper\<close> is the empty dict, which
  the guard \<^verbatim>\<open>is not None\<close> lets through), and the result holds one record, made of the
  line.
\<close>

theorem field_line_opens_record:
  "title_line (u ''Authors: J. Doe'') = False \<and>
   parse_paper_data (u ''Authors: J. Doe'') = [[(Authors, u ''J. Doe'')]]"
  by (simp add: text_defs re_defs parse_defs)

text \<open>
  C2. The claim: a text with exactly N title lines gives exactly N records, so none for
  a text with no title line. The code at the text \<^verbatim>\<open>Summary: An overview.\<close>: no line
  is a title line, and one record is returned.
\<close>

theorem no_title_line_one_record:
  "filter title_line (split_on 10 (u ''Summary: An overview.'')) = [] \<and>
   length (parse_paper_data (u ''Summary: An overview.'')) = 1"
  by (simp add: text_defs re_defs parse_defs)

text \<open>
  C4. The claim: the title of every record returned is a non-empty string. The code at
  the text \<^verbatim>\<open>Authors: J. Doe\<close>, newline, \<^verbatim>\<open>1. A\<close>: two records, the first with no
  title at all.
\<close>

theorem record_without_title:
  "map (\<lambda>p. map_of p Title) (parse_paper_data (u ''Authors: J. Doe\<newline>1. A'')) =
     [None, Some (u ''A'')]"
  by (simp add: text_defs re_defs parse_defs)

text \<open>
  C10. The claim: the categories field of every record returned is the empty string.
  The code at the text \<^verbatim>\<open>Abstract: x\<close>: one record, with no categories field.
\<close>

theorem record_without_categories:
  "map (\<lambda>p. map_of p Categories) (parse_paper_data (u ''Abstract: x'')) = [None]"
  by (simp add: text_defs re_defs parse_defs)

section \<open>The URL column of the table\<close>

text \<open>
  C3. The claim: the URL column of a row is \<^verbatim>\<open>N/A\<close> when the url field of the record
  is empty. The code at the one record parsed from the text \<^verbatim>\<open>1. A\<close>, whose url field
  is the empty string: the URL column is the empty string.
\<close>

theorem empty_url_in_table:
  "parse_paper_data (u ''1. A'') =
     [[(Title, u ''A''), (Categories, []), (Url, []), (Summary, []), (Authors, []),
       (Published, [])]] \<and>
   create_papers_dataframe (parse_paper_data (u ''1. A'')) = Some [(u ''A'', [])]"
  by (simp add: text_defs re_defs parse_defs create_papers_dataframe_def table_title_def
      get_def)

section \<open>The text cleaner rewrites the lines of a text with bold markers\<close>

lemma startswith_Nil [simp]: "startswith [] p = (p = [])"
  by (auto simp: startswith_def)

lemma startswith_single [simp]: "startswith s [a] = (s \<noteq> [] \<and> hd s = a)"
  by (cases s) (auto simp: startswith_def)

lemma startswith_double_single: "startswith s [a, b] \<Longrightarrow> startswith s [a]"
  by (cases s) (auto simp: startswith_def)

lemma contains_double_single: "contains [a, b] t \<Longrightarrow> contains [a] t"
proof (induction t)
  case Nil
  then show ?case by simp
next
  case (Cons x xs)
  show ?case
  proof (cases "startswith (x # xs) [a, b]")
    case True
    then have "startswith (x # xs) [a]" by (rule startswith_double_single)
    then show ?thesis by simp
  next
    case False
    with Cons show ?thesis by (simp del: startswith_single)
  qed
qed

lemma clean_bold:
  assumes "contains (u ''**'') (unescape x)"
  shows "clean x = join [10] (map format_line (split_on 10 (unescape x)))"
proof -
  have b: "contains [42, 42] (unescape x)" using assms by (simp add: u_def)
  then have a: "contains [42] (unescape x)" by (rule contains_double_single)
  have m: "list_ex (\<lambda>marker. contains marker (unescape x)) markers"
    using b by (simp add: markers_def u_def)
  show ?thesis
    using a b m by (simp add: clean_def format_structured_response_def u_def)
qed

text \<open>
  C5, as amended. For every text in which, once the escapes are replaced, \<^verbatim>\<open>**\<close>
  occurs, the cleaner rewrites the text line by line and joins the lines again: a line
  that, trimmed, starts with one asterisk and not with two becomes the hyphen bullet of
  the trimmed rest; a line that, trimmed, starts and ends with \<^verbatim>\<open>**\<close> becomes the
  heading \<^verbatim>\<open>### \<close> followed by the trimmed line.
\<close>

theorem clean_reformats:
  assumes "contains (u ''**'') (unescape x)"
  shows "\<exists>out. clean x = join [10] out \<and> length out = length (split_on 10 (unescape x)) \<and>
     (\<forall>i < length out.
        let line = strip (split_on 10 (unescape x) ! i) in
          (startswith line (u ''*'') \<and> \<not> startswith line (u ''**'')
             \<longrightarrow> out ! i = u ''- '' @ strip (drop 1 line)) \<and>
          (startswith line (u ''**'') \<and> endswith line (u ''**'')
             \<longrightarrow> out ! i = u ''### '' @ line))"
proof -
  let ?ls = "split_on 10 (unescape x)"
  let ?out = "map format_line ?ls"
  have "clean x = join [10] ?out" using assms by (rule clean_bold)
  moreover have "length ?out = length ?ls" by simp
  moreover have "\<forall>i < length ?out.
        let line = strip (?ls ! i) in
          (startswith line (u ''*'') \<and> \<not> startswith line (u ''**'')
             \<longrightarrow> ?out ! i = u ''- '' @ strip (drop 1 line)) \<and>
          (startswith line (u ''**'') \<and> endswith line (u ''**'')
             \<longrightarrow> ?out ! i = u ''### '' @ line)"
    by (auto simp: format_line_def Let_def u_def startswith_def)
  ultimately show ?thesis by blast
qed

lemma list_of_length_two: "length xs = 2 \<Longrightarrow> xs = [xs ! 0, xs ! 1]"
  by (cases xs; cases "tl xs") auto

theorem clean_reformats_witness:
  "contains (u ''**'') (unescape (u ''**Intro**\<newline>* point'')) \<and>
   clean (u ''**Intro**\<newline>* point'') = u ''### **Intro**\<newline>- point''"
proof -
  let ?x = "u ''**Intro**\<newline>* point''"
  have h: "contains (u ''**'') (unescape ?x)"
    by (simp add: unescape_def text_defs)
  have ls: "split_on 10 (unescape ?x) = [u ''**Intro**'', u ''* point'']"
    by (simp add: unescape_def text_defs)
  from clean_reformats [OF h] obtain out where
    c: "clean ?x = join [10] out" and
    n: "length out = length (split_on 10 (unescape ?x))" and
    a: "\<forall>i < length out.
        let line = strip (split_on 10 (unescape ?x) ! i) in
          (startswith line (u ''*'') \<and> \<not> startswith line (u ''**'')
             \<longrightarrow> out ! i = u ''- '' @ strip (drop 1 line)) \<and>
          (startswith line (u ''**'') \<and> endswith line (u ''**'')
             \<longrightarrow> out ! i = u ''### '' @ line)"
    by blast
  from n ls have n2: "length out = 2" by simp
  from a [unfolded ls, THEN spec, of 0] n2 have "out ! 0 = u ''### **Intro**''"
    by (simp add: text_defs)
  moreover from a [unfolded ls, THEN spec, of 1] n2 have "out ! 1 = u ''- point''"
    by (simp add: text_defs)
  ultimately have "out = [u ''### **Intro**'', u ''- point'']"
    using list_of_length_two [OF n2] by simp
  with c have "clean ?x = u ''### **Intro**\<newline>- point''"
    by (simp add: u_def)
  with h show ?thesis by simp
qed

text \<open>
  C5, as stated, fails: the text \<^verbatim>\<open>* item\<close> holds the marker \<^verbatim>\<open>*\<close>, its one line
  starts with a single asterisk, and the cleaner returns the text as it is.
\<close>

theorem single_asterisk_line_kept:
  "list_ex (\<lambda>marker. contains marker (unescape (u ''* item''))) markers \<and>
   startswith (strip (u ''* item'')) (u ''*'') \<and>
   \<not> startswith (strip (u ''* item'')) (u ''**'') \<and>
   clean (u ''* item'') = u ''* item''"
  by (simp add: clean_def unescape_def markers_def format_structured_response_def format_line_def text_defs)

section \<open>Trimming\<close>

lemma lstrip_id: "s = [] \<or> \<not> py_isspace (hd s) \<Longrightarrow> lstrip s = s"
  by (cases s) (auto simp: lstrip_def)

lemma rstrip_id: "s = [] \<or> \<not> py_isspace (last s) \<Longrightarrow> rstrip s = s"
proof (cases "s = []")
  case True
  then show ?thesis by (simp add: rstrip_def)
next
  case False
  assume "s = [] \<or> \<not> py_isspace (last s)"
  with False have "\<not> py_isspace (hd (rev s))" by (simp add: hd_rev)
  with False have "dropWhile py_isspace (rev s) = rev s" by (cases "rev s") auto
  then show ?thesis by (simp add: rstrip_def)
qed

lemma strip_id: "stripped s \<Longrightarrow> strip s = s"
  by (cases "s = []") (auto simp: stripped_def strip_def lstrip_id rstrip_id)

lemma lstrip_hd: "lstrip s \<noteq> [] \<Longrightarrow> \<not> py_isspace (hd (lstrip s))"
  unfolding lstrip_def by (rule hd_dropWhile)

lemma rstrip_last: "rstrip s \<noteq> [] \<Longrightarrow> \<not> py_isspace (last (rstrip s))"
proof -
  assume a: "rstrip s \<noteq> []"
  then have "dropWhile py_isspace (rev s) \<noteq> []" by (simp add: rstrip_def)
  then have "\<not> py_isspace (hd (dropWhile py_isspace (rev s)))" by (rule hd_dropWhile)
  with a show ?thesis by (simp add: rstrip_def last_rev)
qed

lemma rstrip_prefix: "s = rstrip s @ rev (takeWhile py_isspace (rev s))"
proof -
  have "rev (dropWhile py_isspace (rev s)) @ rev (takeWhile py_isspace (rev s)) =
        rev (takeWhile py_isspace (rev s) @ dropWhile py_isspace (rev s))"
    by (rule rev_append [symmetric])
  also have "\<dots> = rev (rev s)" by (simp only: takeWhile_dropWhile_id)
  finally show ?thesis by (simp add: rstrip_def)
qed

lemma rstrip_hd: "rstrip s \<noteq> [] \<Longrightarrow> hd (rstrip s) = hd s"
proof -
  assume a: "rstrip s \<noteq> []"
  have "hd s = hd (rstrip s @ rev (takeWhile py_isspace (rev s)))"
    using rstrip_prefix [of s] by simp
  with a show ?thesis by simp
qed

lemma stripped_strip: "stripped (strip s)"
proof (cases "strip s = []")
  case True
  then show ?thesis by (simp add: stripped_def)
next
  case False
  then have r: "rstrip (lstrip s) \<noteq> []" by (simp add: strip_def)
  then have l: "lstrip s \<noteq> []" by (auto simp: rstrip_def)
  have "hd (rstrip (lstrip s)) = hd (lstrip s)" using r by (rule rstrip_hd)
  with lstrip_hd [OF l] have "\<not> py_isspace (hd (strip s))" by (simp add: strip_def)
  moreover from rstrip_last [OF r] have "\<not> py_isspace (last (strip s))"
    by (simp add: strip_def)
  ultimately show ?thesis using False by (simp add: stripped_def)
qed

lemma strip_strip: "strip (strip s) = strip s"
  by (rule strip_id) (rule stripped_strip)

lemma strip_Nil [simp]: "strip [] = []"
  by (simp add: strip_def lstrip_def rstrip_def)

lemma set_strip: "set (strip s) \<subseteq> set s"
proof -
  have "set (rstrip t) \<subseteq> set t" for t
    using set_dropWhileD [of _ py_isspace "rev t"] by (auto simp: rstrip_def)
  moreover have "set (lstrip s) \<subseteq> set s"
    using set_dropWhileD [of _ py_isspace s] by (auto simp: lstrip_def)
  ultimately show ?thesis unfolding strip_def by blast
qed

lemma strip_nonempty: "s \<noteq> [] \<Longrightarrow> \<not> py_isspace (last s) \<Longrightarrow> strip s \<noteq> []"
proof -
  assume a: "s \<noteq> []" and b: "\<not> py_isspace (last s)"
  have "last s \<in> set s" using a by simp
  then have "dropWhile py_isspace s \<noteq> []" using b by (auto simp: dropWhile_eq_Nil_conv)
  then have l: "lstrip s \<noteq> []" by (simp add: lstrip_def)
  have d: "dropWhile py_isspace s \<noteq> []" using l by (simp add: lstrip_def)
  have "last s = last (takeWhile py_isspace s @ dropWhile py_isspace s)" by simp
  also have "\<dots> = last (dropWhile py_isspace s)" using d by (rule last_appendR)
  finally have "last (lstrip s) = last s" by (simp add: lstrip_def)
  with b have "rstrip (lstrip s) = lstrip s" by (simp add: rstrip_id)
  with l show ?thesis by (simp add: strip_def)
qed

section \<open>Splitting and joining\<close>

lemma split_on_nonempty [simp]: "split_on c s \<noteq> []"
  by (induction s) (auto split: list.splits)

lemma split_on_no_sep: "c \<notin> set s \<Longrightarrow> split_on c s = [s]"
  by (induction s) auto

lemma split_on_append_sep:
  "c \<notin> set l \<Longrightarrow> split_on c (l @ c # r) = l # split_on c r"
  by (induction l) auto

lemma split_on_line_set: "l \<in> set (split_on c s) \<Longrightarrow> set l \<subseteq> set s - {c}"
proof (induction s arbitrary: l)
  case Nil
  then show ?case by simp
next
  case (Cons x xs)
  show ?case
  proof (cases "x = c")
    case True
    with Cons show ?thesis by auto
  next
    case False
    obtain h t where ht: "split_on c xs = h # t"
      by (cases "split_on c xs") auto
    with False Cons.prems have "l = x # h \<or> l \<in> set t" by auto
    then show ?thesis
    proof
      assume "l = x # h"
      moreover have "set h \<subseteq> set xs - {c}" using Cons.IH [of h] ht by simp
      ultimately show ?thesis using False by auto
    next
      assume "l \<in> set t"
      then have "set l \<subseteq> set xs - {c}" using Cons.IH [of l] ht by simp
      then show ?thesis by auto
    qed
  qed
qed

lemma split_on_join:
  "ls \<noteq> [] \<Longrightarrow> \<forall>l \<in> set ls. c \<notin> set l \<Longrightarrow> split_on c (join [c] ls) = ls"
proof (induction ls)
  case Nil
  then show ?case by simp
next
  case (Cons l ls)
  show ?case
  proof (cases ls)
    case Nil
    with Cons.prems show ?thesis by (simp add: split_on_no_sep)
  next
    case (Cons l' ls')
    with Cons.IH Cons.prems have "split_on c (join [c] ls) = ls" by simp
    with Cons Cons.prems show ?thesis by (simp add: split_on_append_sep)
  qed
qed

section \<open>Occurrences\<close>

lemma startswith_iff: "startswith s p = (\<exists>ys. s = p @ ys)"
proof
  assume "startswith s p"
  then have "s = p @ drop (length p) s"
    by (metis append_take_drop_id startswith_def)
  then show "\<exists>ys. s = p @ ys" ..
next
  assume "\<exists>ys. s = p @ ys"
  then show "startswith s p" by (auto simp: startswith_def)
qed

lemma contains_iff: "contains p s = (\<exists>xs ys. s = xs @ p @ ys)"
proof (induction s)
  case Nil
  then show ?case by auto
next
  case (Cons a s)
  show ?case
  proof (cases "startswith (a # s) p")
    case True
    then obtain ys where "a # s = [] @ p @ ys" by (auto simp: startswith_iff)
    then have "\<exists>xs ys. a # s = xs @ p @ ys" by blast
    with True show ?thesis by simp
  next
    case False
    have "(\<exists>xs ys. a # s = xs @ p @ ys) = (\<exists>xs ys. s = xs @ p @ ys)"
    proof
      assume "\<exists>xs ys. a # s = xs @ p @ ys"
      then obtain xs ys where e: "a # s = xs @ p @ ys" by blast
      show "\<exists>xs ys. s = xs @ p @ ys"
      proof (cases xs)
        case Nil
        with e have "startswith (a # s) p" by (auto simp: startswith_iff)
        with False show ?thesis by simp
      next
        case (Cons b xs')
        with e have "s = xs' @ p @ ys" by simp
        then show ?thesis by blast
      qed
    next
      assume "\<exists>xs ys. s = xs @ p @ ys"
      then obtain xs ys where "s = xs @ p @ ys" by blast
      then have "a # s = (a # xs) @ p @ ys" by simp
      then show "\<exists>xs ys. a # s = xs @ p @ ys" by blast
    qed
    with False Cons show ?thesis by simp
  qed
qed

lemma contains_part: "contains p m \<Longrightarrow> contains p (a @ m @ b)"
proof -
  assume "contains p m"
  then obtain xs ys where "m = xs @ p @ ys" by (auto simp: contains_iff)
  then have "a @ m @ b = (a @ xs) @ p @ (ys @ b)" by simp
  then show ?thesis unfolding contains_iff by blast
qed

lemma strip_part: "\<exists>a b. s = a @ strip s @ b"
proof -
  have "s = takeWhile py_isspace s @ lstrip s" by (simp add: lstrip_def)
  also have "lstrip s = strip s @ rev (takeWhile py_isspace (rev (lstrip s)))"
    using rstrip_prefix [of "lstrip s"] by (simp add: strip_def)
  finally show ?thesis by blast
qed

lemma contains_strip: "contains p (strip s) \<Longrightarrow> contains p s"
proof -
  assume c: "contains p (strip s)"
  obtain a b where "s = a @ strip s @ b" using strip_part by blast
  with contains_part [OF c, of a b] show ?thesis by simp
qed

lemma contains_drop: "contains p (drop n s) \<Longrightarrow> contains p s"
  using contains_part [of p "drop n s" "take n s" "[]"] by simp

lemma split_on_hd: "\<exists>b. s = hd (split_on c s) @ b"
proof (induction s)
  case Nil
  then show ?case by simp
next
  case (Cons x xs)
  obtain h t where ht: "split_on c xs = h # t" by (cases "split_on c xs") auto
  from Cons obtain b where "xs = h @ b" using ht by auto
  with ht show ?case by auto
qed

lemma split_on_part: "l \<in> set (split_on c s) \<Longrightarrow> \<exists>a b. s = a @ l @ b"
proof (induction s arbitrary: l)
  case Nil
  then show ?case by simp
next
  case (Cons x xs)
  obtain h t where ht: "split_on c xs = h # t" by (cases "split_on c xs") auto
  have later: "\<exists>a b. x # xs = a @ l @ b" if "l \<in> set (split_on c xs)"
  proof -
    from Cons.IH [OF that] obtain a b where "xs = a @ l @ b" by blast
    then have "x # xs = (x # a) @ l @ b" by simp
    then show ?thesis by blast
  qed
  show ?case
  proof (cases "x = c")
    case True
    with Cons.prems have "l = [] \<or> l \<in> set (split_on c xs)" by auto
    then show ?thesis
    proof
      assume "l = []"
      then have "x # xs = [] @ l @ (x # xs)" by simp
      then show ?thesis by blast
    next
      assume "l \<in> set (split_on c xs)"
      then show ?thesis by (rule later)
    qed
  next
    case False
    with Cons.prems ht have "l = x # h \<or> l \<in> set t" by auto
    then show ?thesis
    proof
      assume l: "l = x # h"
      from split_on_hd [of xs c] ht obtain b where "xs = h @ b" by auto
      with l have "x # xs = [] @ l @ b" by simp
      then show ?thesis by blast
    next
      assume "l \<in> set t"
      then have "l \<in> set (split_on c xs)" using ht by simp
      then show ?thesis by (rule later)
    qed
  qed
qed

lemma contains_line: "l \<in> set (split_on c s) \<Longrightarrow> contains p l \<Longrightarrow> contains p s"
proof -
  assume "l \<in> set (split_on c s)" and c: "contains p l"
  then obtain a b where "s = a @ l @ b" using split_on_part by blast
  with contains_part [OF c, of a b] show ?thesis by simp
qed

text \<open>
  A pair of characters that occurs in two texts put together occurs in one of them,
  unless it lies across the place where they meet.
\<close>

lemma pair_in_append:
  assumes "contains [a, b] (l @ r)"
  shows "contains [a, b] l \<or> contains [a, b] r \<or>
         (l \<noteq> [] \<and> last l = a \<and> r \<noteq> [] \<and> hd r = b)"
  using assms
proof (induction l)
  case Nil
  then show ?case by simp
next
  case (Cons x l)
  show ?case
  proof (cases "startswith ((x # l) @ r) [a, b]")
    case True
    show ?thesis
    proof (cases l)
      case Nil
      with True show ?thesis by (cases r) (auto simp: startswith_def)
    next
      case (Cons y l')
      with True have "startswith (x # l) [a, b]" by (auto simp: startswith_def)
      then show ?thesis by simp
    qed
  next
    case False
    with Cons.prems have "contains [a, b] (l @ r)" by simp
    from Cons.IH [OF this] show ?thesis by (cases l) auto
  qed
qed

lemma pair_after_prefix:
  "contains [a, b] (pre @ l) \<Longrightarrow> a \<notin> set pre \<Longrightarrow> contains [a, b] l"
proof -
  assume c: "contains [a, b] (pre @ l)" and n: "a \<notin> set pre"
  have "\<not> contains [a, b] pre"
  proof
    assume "contains [a, b] pre"
    then obtain xs ys where "pre = xs @ [a, b] @ ys" by (auto simp: contains_iff)
    with n show False by simp
  qed
  moreover have "\<not> (pre \<noteq> [] \<and> last pre = a)" using n by (auto dest: last_in_set)
  ultimately show ?thesis using pair_in_append [OF c] by blast
qed

lemma pair_in_join:
  assumes "contains [a, b] (join [c] ls)" and "a \<noteq> c" and "b \<noteq> c"
  shows "\<exists>l \<in> set ls. contains [a, b] l"
  using assms(1)
proof (induction ls)
  case Nil
  then show ?case by simp
next
  case (Cons l ls)
  show ?case
  proof (cases ls)
    case Nil
    with Cons.prems show ?thesis by simp
  next
    case (Cons l' ls')
    with Cons.prems have "contains [a, b] (l @ c # join [c] ls)" by simp
    from pair_in_append [OF this] assms(2,3)
    have "contains [a, b] l \<or> contains [a, b] (c # join [c] ls)" by auto
    then show ?thesis
    proof
      assume "contains [a, b] l"
      then show ?thesis by simp
    next
      assume "contains [a, b] (c # join [c] ls)"
      then have "contains [a, b] ([c] @ join [c] ls)" by simp
      then have "contains [a, b] (join [c] ls)"
        by (rule pair_after_prefix) (use assms(2) in simp)
      with Cons.IH show ?thesis by auto
    qed
  qed
qed

section \<open>Formatting a line twice\<close>

lemma not_space_codes:
  "\<not> py_isspace 35" "\<not> py_isspace 45" "\<not> py_isspace 42"
  by (simp_all add: py_isspace_def space_ranges_def)

lemma format_line_plain:
  assumes "stripped s" and "s \<noteq> []" and "hd s \<noteq> 42" and "hd s \<noteq> 226"
  shows "format_line s = s"
proof -
  obtain a r where s: "s = a # r" using assms(2) by (cases s) auto
  have "strip s = s" using assms(1) by (rule strip_id)
  then show ?thesis
    using assms(3,4) s by (simp add: format_line_def startswith_def u_def glyph_def)
qed

lemma stripped_prefixed:
  assumes "stripped b" and "b \<noteq> []" and "\<not> py_isspace a"
  shows "stripped (a # p @ b)"
  using assms by (simp add: stripped_def)

lemma format_line_heading:
  assumes "stripped s" and "s \<noteq> []"
  shows "format_line (u ''### '' @ s) = u ''### '' @ s"
proof -
  have "stripped (35 # [35, 35, 32] @ s)"
    using assms not_space_codes(1) by (rule stripped_prefixed)
  then have "format_line (35 # [35, 35, 32] @ s) = 35 # [35, 35, 32] @ s"
    by (rule format_line_plain) simp_all
  then show ?thesis by (simp add: u_def)
qed

lemma format_line_bullet:
  assumes "stripped b" and "b \<noteq> []"
  shows "format_line (u ''- '' @ b) = u ''- '' @ b"
proof -
  have "stripped (45 # [32] @ b)"
    using assms not_space_codes(2) by (rule stripped_prefixed)
  then have "format_line (45 # [32] @ b) = 45 # [32] @ b"
    by (rule format_line_plain) simp_all
  then show ?thesis by (simp add: u_def)
qed

lemma strip_tail_nonempty:
  assumes "stripped s" and "s = a # r" and "r \<noteq> []"
  shows "strip r \<noteq> []"
proof -
  have "last r = last s" using assms(2,3) by simp
  moreover have "\<not> py_isspace (last s)" using assms(1,2) by (simp add: stripped_def)
  ultimately show ?thesis using assms(3) by (simp add: strip_nonempty)
qed

lemma format_line_twice:
  assumes "strip l \<noteq> u ''*''"
  shows "format_line (format_line l) = format_line l"
proof -
  let ?s = "strip l"
  have st: "stripped ?s" by (rule stripped_strip)
  show ?thesis
  proof (cases "?s = []")
    case True
    then show ?thesis by (simp add: format_line_def)
  next
    case ne: False
    then obtain a r where s: "?s = a # r" by (cases ?s) auto
    show ?thesis
    proof (cases "startswith ?s (u ''**'') \<and> endswith ?s (u ''**'')")
      case True
      with ne have "format_line l = u ''### '' @ ?s"
        by (auto simp: format_line_def Let_def)
      with format_line_heading [OF st ne] show ?thesis by simp
    next
      case nh: False
      show ?thesis
      proof (cases "startswith ?s (u ''*'') \<and> \<not> startswith ?s (u ''**'')")
        case True
        with ne nh have f: "format_line l = u ''- '' @ strip (drop 1 ?s)"
          by (auto simp: format_line_def Let_def)
        from True s have "a = 42" by (simp add: u_def)
        with assms s have "r \<noteq> []" by (auto simp: u_def)
        with st s have "strip r \<noteq> []" by (rule strip_tail_nonempty)
        with s have "strip (drop 1 ?s) \<noteq> []" by simp
        with format_line_bullet [OF stripped_strip this] f show ?thesis by simp
      next
        case nb: False
        show ?thesis
        proof (cases "startswith ?s glyph")
          case True
          with ne nh nb have f: "format_line l = u ''- '' @ strip (drop 1 ?s)"
            by (auto simp: format_line_def Let_def)
          from True s have "r \<noteq> []" by (auto simp: glyph_def startswith_def)
          with st s have "strip r \<noteq> []" by (rule strip_tail_nonempty)
          with s have "strip (drop 1 ?s) \<noteq> []" by simp
          with format_line_bullet [OF stripped_strip this] f show ?thesis by simp
        next
          case False
          with ne nh nb have f: "format_line l = ?s"
            by (auto simp: format_line_def Let_def)
          from ne nh nb False have "format_line ?s = ?s"
            by (auto simp: format_line_def Let_def strip_strip)
          with f show ?thesis by simp
        qed
      qed
    qed
  qed
qed

lemma set_format_line: "set (format_line l) \<subseteq> set l \<union> {32, 35, 45}"
proof -
  have a: "set (strip l) \<subseteq> set l" by (rule set_strip)
  have "set (strip (drop 1 (strip l))) \<subseteq> set (drop 1 (strip l))" by (rule set_strip)
  also have "\<dots> \<subseteq> set (strip l)" by (rule set_drop_subset)
  finally have b: "set (strip (drop 1 (strip l))) \<subseteq> set l" using a by blast
  show ?thesis using a b by (auto simp: format_line_def Let_def u_def)
qed

section \<open>Escapes\<close>

lemma replace_absent: "\<not> contains [a, b] s \<Longrightarrow> replace [a, b] new s = s"
  by (induction s) (auto split: if_splits)

lemma unescape_id: "\<not> has_escape t \<Longrightarrow> unescape t = t"
  by (auto simp: has_escape_def unescape_def replace_absent split: if_splits)

lemma format_line_pair:
  assumes "contains [92, b] (format_line l)"
  shows "contains [92, b] l"
proof -
  let ?s = "strip l"
  from assms consider
    "contains [92, b] (u ''### '' @ ?s)" | "contains [92, b] (u ''- '' @ strip (drop 1 ?s))"
    | "contains [92, b] ?s"
    by (auto simp: format_line_def Let_def split: if_splits)
  then have "contains [92, b] ?s"
  proof cases
    case 1
    then show ?thesis by (rule pair_after_prefix) (simp add: u_def)
  next
    case 2
    then have "contains [92, b] (strip (drop 1 ?s))"
      by (rule pair_after_prefix) (simp add: u_def)
    then have "contains [92, b] (drop 1 ?s)" by (rule contains_strip)
    then show ?thesis by (rule contains_drop)
  next
    case 3
    then show ?thesis .
  qed
  then show ?thesis by (rule contains_strip)
qed

lemma format_structured_response_pair:
  assumes "contains [92, b] (format_structured_response t)" and "b \<noteq> 10"
  shows "contains [92, b] t"
proof (cases "format_structured_response t = t")
  case True
  with assms(1) show ?thesis by simp
next
  case False
  then have "format_structured_response t = join [10] (map format_line (split_on 10 t))"
    by (auto simp: format_structured_response_def split: if_splits)
  with assms(1) have "contains [92, b] (join [10] (map format_line (split_on 10 t)))"
    by simp
  from pair_in_join [OF this _ assms(2)]
  have "\<exists>l \<in> set (map format_line (split_on 10 t)). contains [92, b] l" by simp
  then obtain l where l: "l \<in> set (split_on 10 t)" and f: "contains [92, b] (format_line l)"
    by auto
  from f have "contains [92, b] l" by (rule format_line_pair)
  with l show ?thesis by (rule contains_line)
qed

lemma format_structured_response_no_escape:
  "\<not> has_escape t \<Longrightarrow> \<not> has_escape (format_structured_response t)"
  using format_structured_response_pair [of 110 t] format_structured_response_pair [of 34 t]
  by (auto simp: has_escape_def split: if_splits)

section \<open>Cleaning twice\<close>

lemma clean_no_escape:
  "\<not> has_escape t \<Longrightarrow>
   clean t = (if list_ex (\<lambda>marker. contains marker t) markers
              then format_structured_response t else t)"
  by (simp add: clean_def unescape_id)

lemma format_line_no_newline:
  assumes "l \<in> set (split_on 10 t)"
  shows "10 \<notin> set (format_line l)"
proof -
  have "set l \<subseteq> set t - {10}" using assms by (rule split_on_line_set)
  with set_format_line [of l] show ?thesis by auto
qed

lemma format_structured_response_twice:
  assumes "\<forall>l \<in> set (split_on 10 t). strip l \<noteq> u ''*''"
  shows "format_structured_response (format_structured_response t) =
         format_structured_response t"
proof (cases "contains (u ''**'') t \<and> (contains (u ''*'') t \<or> contains glyph t)")
  case False
  then show ?thesis by (auto simp: format_structured_response_def)
next
  case True
  let ?ls = "split_on 10 t"
  let ?y = "join [10] (map format_line ?ls)"
  from True have y: "format_structured_response t = ?y"
    by (simp add: format_structured_response_def)
  have "\<forall>l \<in> set (map format_line ?ls). 10 \<notin> set l"
    using format_line_no_newline [of _ t] by auto
  moreover have "map format_line ?ls \<noteq> []" by simp
  ultimately have "split_on 10 ?y = map format_line ?ls" by (simp add: split_on_join)
  moreover have "map format_line (map format_line ?ls) = map format_line ?ls"
    unfolding map_map using assms by (intro map_cong) (simp_all add: format_line_twice)
  ultimately have "join [10] (map format_line (split_on 10 ?y)) = ?y"
    by (simp only:)
  then have "format_structured_response ?y = ?y"
    by (simp add: format_structured_response_def)
  with y show ?thesis by simp
qed

lemma clean_twice:
  assumes "\<not> has_escape x" and "\<forall>l \<in> set (split_on 10 x). strip l \<noteq> u ''*''"
  shows "clean (clean x) = clean x"
proof (cases "list_ex (\<lambda>marker. contains marker x) markers")
  case False
  with assms(1) have "clean x = x" by (simp add: clean_no_escape)
  then show ?thesis by simp
next
  case True
  let ?y = "format_structured_response x"
  from True assms(1) have y: "clean x = ?y" by (simp add: clean_no_escape)
  have "\<not> has_escape ?y" using assms(1) by (rule format_structured_response_no_escape)
  then have "clean ?y = (if list_ex (\<lambda>marker. contains marker ?y) markers
                         then format_structured_response ?y else ?y)"
    by (rule clean_no_escape)
  also have "\<dots> = ?y" using format_structured_response_twice [OF assms(2)] by simp
  finally show ?thesis using y by simp
qed

lemma canonical_line_not_asterisk: "canonical_line l \<Longrightarrow> strip l \<noteq> u ''*''"
  by (auto simp: canonical_line_def Let_def u_def startswith_def endswith_def glyph_def
      split: if_splits)

text \<open>
  C9, as amended. For every text in canonical markdown form that holds neither of the
  escape sequences that the cleaner replaces (a backslash followed by \<^verbatim>\<open>n\<close> or by a
  quote), cleaning the cleaned text gives the cleaned text again.
\<close>

theorem clean_idempotent:
  assumes "canonical_markdown x" and "\<not> has_escape x"
  shows "clean (clean x) = clean x"
proof -
  from assms(1) have "\<forall>l \<in> set (split_on 10 x). strip l \<noteq> u ''*''"
    by (auto simp: canonical_markdown_def list_all_iff canonical_line_not_asterisk)
  with assms(2) show ?thesis by (rule clean_twice)
qed

theorem clean_idempotent_witness:
  "canonical_markdown (u ''  ### **Intro**\<newline>- point  '') \<and>
   \<not> has_escape (u ''  ### **Intro**\<newline>- point  '') \<and>
   clean (u ''  ### **Intro**\<newline>- point  '') = u ''### **Intro**\<newline>- point'' \<and>
   clean (clean (u ''  ### **Intro**\<newline>- point  '')) = u ''### **Intro**\<newline>- point''"
proof -
  let ?x = "u ''  ### **Intro**\<newline>- point  ''"
  have c: "canonical_markdown ?x"
    by (simp add: canonical_markdown_def canonical_line_def text_defs)
  have b: "\<not> has_escape ?x" by (simp add: has_escape_def text_defs)
  have v: "clean ?x = u ''### **Intro**\<newline>- point''"
    by (simp add: clean_def unescape_def markers_def format_structured_response_def
        format_line_def text_defs)
  from clean_idempotent [OF c b] v
  have "clean (clean ?x) = u ''### **Intro**\<newline>- point''" by simp
  with c b v show ?thesis by simp
qed

text \<open>
  C9, as stated, fails. The text of the one bullet line \<^verbatim>\<open>- \\"\<close> (hyphen, space,
  two backslashes, a quote) is in canonical markdown form, and is what the cleaner
  returns for the same line with three backslashes; cleaning it removes one backslash,
  cleaning the result removes the other.
\<close>

theorem escaped_quote_cleaned_twice:
  "canonical_markdown (u ''- '' @ [92, 92, 34]) \<and>
   clean (u ''- '' @ [92, 92, 92, 34]) = u ''- '' @ [92, 92, 34] \<and>
   clean (u ''- '' @ [92, 92, 34]) = u ''- '' @ [92, 34] \<and>
   clean (clean (u ''- '' @ [92, 92, 34])) = u ''- '' @ [34] \<and>
   clean (clean (u ''- '' @ [92, 92, 34])) \<noteq> clean (u ''- '' @ [92, 92, 34])"
  by (simp add: canonical_markdown_def canonical_line_def clean_def unescape_def markers_def
      format_structured_response_def format_line_def text_defs)

section \<open>Facts about the matcher\<close>

lemma lit_prefix_eq: "lit_prefix (=) w s = (\<exists>t. s = w @ t)"
proof (induction w arbitrary: s)
  case Nil
  then show ?case by simp
next
  case (Cons a w)
  then show ?case by (cases s) auto
qed

lemma ms_greedy_Nil:
  "ms (Rep Greedy mn mx p # r) i [] os gs = (if mn = 0 then ms r i [] os gs else None)"
  by (simp add: ms_rep)

lemma ms_greedy_Cons:
  "ms (Rep Greedy mn mx p # r) i (c # s) os gs =
     (case (if p c \<and> mx \<noteq> Some 0
            then ms (Rep Greedy (mn - 1) (dec_max mx) p # r) (i + 1) s os gs
            else None) of
        Some m \<Rightarrow> Some m
      | None \<Rightarrow> if mn = 0 then ms r i (c # s) os gs else None)"
  by (simp add: ms_rep)

lemma ms_lazy_Nil:
  "ms (Rep Lazy mn mx p # r) i [] os gs = (if mn = 0 then ms r i [] os gs else None)"
  by (simp add: ms_rep split: option.splits)

lemma ms_lazy_Cons:
  "ms (Rep Lazy mn mx p # r) i (c # s) os gs =
     (case (if mn = 0 then ms r i (c # s) os gs else None) of
        Some m \<Rightarrow> Some m
      | None \<Rightarrow>
          if p c \<and> mx \<noteq> Some 0
          then ms (Rep Lazy (mn - 1) (dec_max mx) p # r) (i + 1) s os gs
          else None)"
  by (auto simp: ms_rep split: option.splits)

lemma rep_greedy_sound:
  "ms (Rep Greedy mn mx p # r) i s os gs = Some m \<Longrightarrow>
   \<exists>ds t. s = ds @ t \<and> list_all p ds \<and> mn \<le> length ds \<and>
          ms r (i + length ds) t os gs = Some m"
proof (induction s arbitrary: mn mx i)
  case Nil
  then have "mn = 0 \<and> ms r i [] os gs = Some m"
    by (simp add: ms_greedy_Nil split: if_splits)
  then show ?case by simp
next
  case (Cons c s)
  show ?case
  proof (cases "p c \<and> mx \<noteq> Some 0 \<and>
                ms (Rep Greedy (mn - 1) (dec_max mx) p # r) (i + 1) s os gs \<noteq> None")
    case True
    with Cons.prems
    have "ms (Rep Greedy (mn - 1) (dec_max mx) p # r) (i + 1) s os gs = Some m"
      by (auto simp: ms_greedy_Cons)
    from Cons.IH [OF this] obtain ds t where
      "s = ds @ t" "list_all p ds" "mn - 1 \<le> length ds"
      "ms r (i + 1 + length ds) t os gs = Some m" by blast
    with True have "c # s = (c # ds) @ t \<and> list_all p (c # ds) \<and> mn \<le> length (c # ds) \<and>
      ms r (i + length (c # ds)) t os gs = Some m" by (simp add: add.commute add.left_commute)
    then show ?thesis by blast
  next
    case False
    with Cons.prems have "mn = 0 \<and> ms r i (c # s) os gs = Some m"
      by (auto simp: ms_greedy_Cons split: if_splits option.splits)
    then have "c # s = [] @ (c # s) \<and> list_all p [] \<and> mn \<le> length ([] :: nat list) \<and>
      ms r (i + length ([] :: nat list)) (c # s) os gs = Some m" by simp
    then show ?thesis by blast
  qed
qed

lemma rep_greedy_complete:
  "list_all p ds \<Longrightarrow> mn \<le> length ds \<Longrightarrow> ms r (i + length ds) t os gs \<noteq> None \<Longrightarrow>
   ms (Rep Greedy mn None p # r) i (ds @ t) os gs \<noteq> None"
proof (induction ds arbitrary: mn i)
  case Nil
  then show ?case
    by (cases t) (auto simp: ms_greedy_Nil ms_greedy_Cons split: option.splits)
next
  case (Cons c ds)
  from Cons.prems have "ms r (i + 1 + length ds) t os gs \<noteq> None"
    by (simp add: add.commute add.left_commute)
  with Cons.prems have "ms (Rep Greedy (mn - 1) None p # r) (i + 1) (ds @ t) os gs \<noteq> None"
    by (intro Cons.IH) auto
  with Cons.prems show ?case
    by (auto simp: ms_greedy_Cons dec_max_def split: option.splits)
qed

lemma rep_lazy_complete:
  "list_all p ds \<Longrightarrow> mn \<le> length ds \<Longrightarrow> ms r (i + length ds) t os gs \<noteq> None \<Longrightarrow>
   ms (Rep Lazy mn None p # r) i (ds @ t) os gs \<noteq> None"
proof (induction ds arbitrary: mn i)
  case Nil
  then show ?case
    by (cases t) (auto simp: ms_lazy_Nil ms_lazy_Cons split: option.splits)
next
  case (Cons c ds)
  from Cons.prems have "ms r (i + 1 + length ds) t os gs \<noteq> None"
    by (simp add: add.commute add.left_commute)
  with Cons.prems have "ms (Rep Lazy (mn - 1) None p # r) (i + 1) (ds @ t) os gs \<noteq> None"
    by (intro Cons.IH) auto
  with Cons.prems show ?case
    by (auto simp: ms_lazy_Cons dec_max_def split: option.splits)
qed

lemma first_match_member:
  "pat \<in> set pats \<Longrightarrow> re_match pat line \<noteq> None \<Longrightarrow> first_match pats line \<noteq> None"
  by (induction pats) (auto split: option.splits)

text \<open>The shape of a line that the numbered-list pattern matches.\<close>

lemma numbered_shape:
  assumes "numbered line"
  shows "\<exists>ds t. line = ds @ 46 # 32 # t \<and> ds \<noteq> [] \<and> list_all digit ds"
proof -
  from assms obtain m where
    "ms (Rep Greedy 1 None digit # [Lit (u ''. '')]) 0 line [] [] = Some m"
    by (auto simp: numbered_def re_match_def numbered_pattern_def)
  from rep_greedy_sound [OF this] obtain ds t where
    l: "line = ds @ t" and d: "list_all digit ds" and n: "1 \<le> length ds" and
    r: "ms [Lit (u ''. '')] (0 + length ds) t [] [] = Some m" by blast
  from r have "lit_prefix (=) [46, 32] t" by (simp add: u_def split: if_splits)
  then obtain t' where "t = [46, 32] @ t'" by (auto simp: lit_prefix_eq)
  with l d n show ?thesis by auto
qed

text \<open>The fifth title pattern matches a number, a dot and a rest without newline.\<close>

lemma bare_numbered_matches:
  assumes "ds \<noteq> []" and "list_all digit ds" and "10 \<notin> set t"
  shows "re_match (title_patterns ! 4) (ds @ 46 # t) \<noteq> None"
proof -
  let ?os = "AList.update 1 t []"
  have "ms [Close 1, Eol] (length ds + 1 + length t) [] ?os [] \<noteq> None" by simp
  moreover have "list_all dot t" using assms(3) by (auto simp: list_all_iff dot_def)
  ultimately have "ms (Rep Lazy 0 None dot # [Close 1, Eol]) (length ds + 1) (t @ []) ?os []
      \<noteq> None"
    by (intro rep_lazy_complete) simp_all
  then have "ms [Open 1, Rep Lazy 0 None dot, Close 1, Eol] (length ds + 1 + length ([] :: nat list)) t [] [] \<noteq> None"
    by simp
  then have "ms (Rep Greedy 0 None space # [Open 1, Rep Lazy 0 None dot, Close 1, Eol])
      (length ds + 1) ([] @ t) [] [] \<noteq> None"
    by (intro rep_greedy_complete) simp_all
  then have "ms (Lit (u ''.'') # Rep Greedy 0 None space #
      [Open 1, Rep Lazy 0 None dot, Close 1, Eol]) (0 + length ds) (46 # t) [] [] \<noteq> None"
    by (simp add: u_def)
  with assms(1,2) have "ms (Rep Greedy 1 None digit # Lit (u ''.'') # Rep Greedy 0 None space #
      [Open 1, Rep Lazy 0 None dot, Close 1, Eol]) 0 (ds @ 46 # t) [] [] \<noteq> None"
    by (intro rep_greedy_complete) (simp_all add: Suc_leI)
  then show ?thesis by (simp add: re_match_def title_patterns_def)
qed

section \<open>A numbered line is a title line\<close>

lemma in_ranges_iff: "in_ranges c rs = (\<exists>r \<in> set rs. fst r \<le> c \<and> c \<le> snd r)"
  by (induction rs) auto

lemma ranges_apart:
  assumes "list_all (\<lambda>r. list_all (\<lambda>r'. snd r < fst r' \<or> snd r' < fst r) rs') rs"
    and "in_ranges c rs"
  shows "\<not> in_ranges c rs'"
proof
  assume "in_ranges c rs'"
  then obtain r' where r': "r' \<in> set rs'" "fst r' \<le> c" "c \<le> snd r'"
    by (auto simp: in_ranges_iff)
  from assms(2) obtain r where r: "r \<in> set rs" "fst r \<le> c" "c \<le> snd r"
    by (auto simp: in_ranges_iff)
  from assms(1) r(1) r'(1) have "snd r < fst r' \<or> snd r' < fst r"
    by (auto simp: list_all_iff)
  with r r' show False by auto
qed

lemma digit_not_space: "digit c \<Longrightarrow> \<not> py_isspace c"
proof -
  have "list_all (\<lambda>r. list_all (\<lambda>r'. snd r < fst r' \<or> snd r' < fst r) space_ranges)
          decimal_ranges"
    by (simp add: decimal_ranges_def space_ranges_def)
  from ranges_apart [OF this] show "digit c \<Longrightarrow> \<not> py_isspace c"
    by (simp add: digit_def py_isdecimal_def py_isspace_def)
qed

lemma rstrip_after_nonspace:
  assumes "\<not> py_isspace a"
  shows "rstrip (xs @ a # ys) = xs @ a # rstrip ys"
proof -
  have "dropWhile py_isspace (rev ys @ a # rev xs) =
        (if \<forall>c \<in> set (rev ys). py_isspace c then dropWhile py_isspace (a # rev xs)
         else dropWhile py_isspace (rev ys) @ a # rev xs)"
    by (rule dropWhile_append)
  with assms show ?thesis
    by (auto simp: rstrip_def dropWhile_eq_Nil_conv)
qed

lemma numbered_title_line:
  assumes "numbered l" and "10 \<notin> set l"
  shows "title_line l"
proof -
  from numbered_shape [OF assms(1)] obtain ds t where
    l: "l = ds @ 46 # 32 # t" and ne: "ds \<noteq> []" and d: "list_all digit ds" by blast
  from ne d have "\<not> py_isspace (hd ds)"
    by (cases ds) (auto simp: digit_not_space)
  with ne l have "lstrip l = l" by (simp add: lstrip_id)
  moreover have "\<not> py_isspace 46" by (simp add: py_isspace_def space_ranges_def)
  then have "rstrip (ds @ 46 # 32 # t) = ds @ 46 # rstrip (32 # t)"
    by (rule rstrip_after_nonspace)
  ultimately have s: "strip l = ds @ 46 # rstrip (32 # t)" using l by (simp add: strip_def)
  have "set (rstrip (32 # t)) \<subseteq> set (32 # t)"
    using set_dropWhileD [of _ py_isspace "rev (32 # t)"] by (auto simp: rstrip_def)
  with assms(2) l have "10 \<notin> set (rstrip (32 # t))" by auto
  with ne d have "re_match (title_patterns ! 4) (ds @ 46 # rstrip (32 # t)) \<noteq> None"
    by (rule bare_numbered_matches)
  moreover have "title_patterns ! 4 \<in> set title_patterns" by (simp add: title_patterns_def)
  ultimately have "first_match title_patterns (strip l) \<noteq> None"
    using s by (simp add: first_match_member)
  with s show ?thesis by (simp add: title_line_def)
qed

lemma length_filter_mono:
  "\<forall>x \<in> set xs. P x \<longrightarrow> Q x \<Longrightarrow> length (filter P xs) \<le> length (filter Q xs)"
  by (induction xs) auto

lemma numbered_lines_parsed:
  "length (filter numbered (split_on 10 t)) \<le> length (parse_paper_data t)"
proof -
  have "\<forall>l \<in> set (split_on 10 t). numbered l \<longrightarrow> title_line l"
    using split_on_line_set [of _ 10 t] by (auto intro: numbered_title_line)
  then have "length (filter numbered (split_on 10 t))
               \<le> length (filter title_line (split_on 10 t))"
    by (rule length_filter_mono)
  also have "\<dots> \<le> length (parse_paper_data t)" by (rule title_lines_parsed)
  finally show ?thesis .
qed

section \<open>Trimming the whole text does not change what is parsed\<close>

lemma step_blank: "strip raw = [] \<Longrightarrow> step st raw = st"
  by (simp add: step_def)

lemma step_strip: "step st (strip raw) = step st raw"
  by (simp add: step_def strip_strip)

lemma foldl_step_nonblank: "foldl step st (nonblank ls) = foldl step st ls"
proof (induction ls arbitrary: st)
  case Nil
  then show ?case by (simp add: nonblank_def)
next
  case (Cons raw ls)
  show ?case
  proof (cases "strip raw = []")
    case True
    then have "nonblank (raw # ls) = nonblank ls" by (simp add: nonblank_def)
    with True Cons.IH show ?thesis by (simp add: step_blank)
  next
    case False
    then have "nonblank (raw # ls) = strip raw # nonblank ls" by (simp add: nonblank_def)
    with Cons.IH show ?thesis by (simp add: step_strip)
  qed
qed

lemma lstrip_space_Cons: "py_isspace w \<Longrightarrow> lstrip (w # l) = lstrip l"
  by (simp add: lstrip_def)

lemma nonblank_split_space_Cons:
  assumes "py_isspace w"
  shows "nonblank (split_on 10 (w # s)) = nonblank (split_on 10 s)"
proof (cases "w = 10")
  case True
  then show ?thesis by (simp add: nonblank_def)
next
  case False
  obtain h t where ht: "split_on 10 s = h # t" by (cases "split_on 10 s") auto
  have "strip (w # h) = strip h" using assms by (simp add: strip_def lstrip_space_Cons)
  with False ht show ?thesis by (simp add: nonblank_def)
qed

lemma nonblank_split_lstrip: "nonblank (split_on 10 (lstrip s)) = nonblank (split_on 10 s)"
proof (induction s)
  case Nil
  then show ?case by (simp add: lstrip_def)
next
  case (Cons w s)
  show ?case
  proof (cases "py_isspace w")
    case True
    with Cons show ?thesis
      by (simp add: lstrip_space_Cons nonblank_split_space_Cons del: split_on.simps)
  next
    case False
    then show ?thesis by (simp add: lstrip_def)
  qed
qed

lemma split_on_snoc_sep: "split_on c (s @ [c]) = split_on c s @ [[]]"
  by (induction s) (auto split: list.splits)

lemma split_on_snoc:
  "x \<noteq> c \<Longrightarrow> split_on c (s @ [x]) = butlast (split_on c s) @ [last (split_on c s) @ [x]]"
proof (induction s)
  case Nil
  then show ?case by simp
next
  case (Cons a s)
  obtain h t where ht: "split_on c s = h # t" by (cases "split_on c s") auto
  with Cons show ?case by (cases t) (auto split: list.splits)
qed

lemma rstrip_space_snoc: "py_isspace w \<Longrightarrow> rstrip (l @ [w]) = rstrip l"
  by (simp add: rstrip_def)

lemma strip_space_snoc:
  assumes "py_isspace w"
  shows "strip (l @ [w]) = strip l"
proof (cases "\<forall>c \<in> set l. py_isspace c")
  case True
  with assms have "lstrip (l @ [w]) = []" and "lstrip l = []"
    by (simp_all add: lstrip_def dropWhile_eq_Nil_conv)
  then show ?thesis by (simp add: strip_def)
next
  case False
  then have "lstrip (l @ [w]) = lstrip l @ [w]"
    by (simp add: lstrip_def dropWhile_append)
  with assms show ?thesis by (simp add: strip_def rstrip_space_snoc)
qed

lemma nonblank_append: "nonblank (xs @ ys) = nonblank xs @ nonblank ys"
  by (simp add: nonblank_def)

lemma nonblank_split_space_snoc:
  assumes "py_isspace w"
  shows "nonblank (split_on 10 (s @ [w])) = nonblank (split_on 10 s)"
proof (cases "w = 10")
  case True
  then show ?thesis by (simp add: split_on_snoc_sep nonblank_def)
next
  case False
  let ?ls = "split_on 10 s"
  have "nonblank [last ?ls @ [w]] = nonblank [last ?ls]"
    using assms by (simp add: nonblank_def strip_space_snoc)
  then have "nonblank (butlast ?ls @ [last ?ls @ [w]]) = nonblank (butlast ?ls @ [last ?ls])"
    by (simp only: nonblank_append)
  also have "butlast ?ls @ [last ?ls] = ?ls" by simp
  finally have "nonblank (butlast ?ls @ [last ?ls @ [w]]) = nonblank ?ls" .
  moreover from False have "split_on 10 (s @ [w]) = butlast ?ls @ [last ?ls @ [w]]"
    by (rule split_on_snoc)
  ultimately show ?thesis by (simp only:)
qed

lemma nonblank_split_spaces:
  "list_all py_isspace ws \<Longrightarrow> nonblank (split_on 10 (s @ ws)) = nonblank (split_on 10 s)"
proof (induction ws arbitrary: s)
  case Nil
  then show ?case by simp
next
  case (Cons w ws)
  from Cons.prems have w: "py_isspace w" and ws: "list_all py_isspace ws" by simp_all
  have "nonblank (split_on 10 ((s @ [w]) @ ws)) = nonblank (split_on 10 (s @ [w]))"
    using ws by (rule Cons.IH)
  also have "\<dots> = nonblank (split_on 10 s)" using w by (rule nonblank_split_space_snoc)
  finally show ?case by simp
qed

lemma nonblank_split_rstrip: "nonblank (split_on 10 (rstrip s)) = nonblank (split_on 10 s)"
proof -
  let ?ws = "rev (takeWhile py_isspace (rev s))"
  have "list_all py_isspace ?ws"
    using set_takeWhileD [of _ py_isspace "rev s"] by (auto simp: list_all_iff)
  then have "nonblank (split_on 10 (rstrip s @ ?ws)) = nonblank (split_on 10 (rstrip s))"
    by (rule nonblank_split_spaces)
  with rstrip_prefix [of s] show ?thesis by simp
qed

lemma parse_paper_data_strip: "parse_paper_data (strip t) = parse_paper_data t"
proof -
  have "nonblank (split_on 10 (strip t)) = nonblank (split_on 10 t)"
    by (simp add: strip_def nonblank_split_rstrip nonblank_split_lstrip)
  then have "foldl step init_state (split_on 10 (strip t)) =
             foldl step init_state (split_on 10 t)"
    using foldl_step_nonblank [of init_state "split_on 10 (strip t)"]
      foldl_step_nonblank [of init_state "split_on 10 t"] by simp
  then show ?thesis by (simp add: parse_paper_data_def)
qed

section \<open>The list classifier\<close>

lemma is_paper_list_parsed: "is_paper_list_response x = (2 \<le> length (parse_paper_data x))"
proof -
  have "length (filter numbered (split_on 10 (strip x))) \<le> length (parse_paper_data x)"
    using numbered_lines_parsed [of "strip x"] by (simp add: parse_paper_data_strip)
  then show ?thesis by (auto simp: is_paper_list_response_def Let_def)
qed

text \<open>
  C6. For every text, \<open>is_paper_list_response\<close> is true exactly when
  \<open>parse_paper_data\<close> returns at least two records or at least two lines of the text
  match the numbered-list prefix. In particular it is true whenever at least two
  records are parsed; by \<open>is_paper_list_parsed\<close> it is true then only, two numbered
  lines being two title lines.
\<close>

theorem is_paper_list_iff:
  "is_paper_list_response x =
     (2 \<le> length (parse_paper_data x) \<or> 2 \<le> length (filter numbered (split_on 10 x)))"
  using numbered_lines_parsed [of x] by (auto simp: is_paper_list_parsed)

end
